theory Spec2Isabelle
  imports Main "HOL-Library.Word" "HOL-Library.Multiset"
begin

section \<open>Received elements: \<^verbatim>\<open>osc/OscReceivedElements.h\<close>\<close>

text \<open>
  The readers of \<^verbatim>\<open>OscReceivedElements.h\<close> hold raw \<^verbatim>\<open>const char *\<close> pointers into a
  buffer they do not own. The store is a list of bytes indexed by address; a pointer is
  an address (a \<open>nat\<close>), the null pointer is address \<open>0\<close>. A received message occupies
  some range of the store. Reading an address outside the store is undefined behaviour
  in the source; \<open>peek\<close> reads \<open>NUL\<close> there. A data member \<^verbatim>\<open>x_\<close> of the
  source is the field \<open>x\<close> of the record here (no name ends in an underscore in
  Isabelle); \<^verbatim>\<open>value_\<close>, \<^verbatim>\<open>p_\<close>, \<^verbatim>\<open>end_\<close> and \<^verbatim>\<open>break_\<close> are \<open>value_arg\<close>, \<open>p_it\<close>,
  \<open>end_it\<close> and \<open>break_flag\<close>.
\<close>

type_synonym memory = "char list"

abbreviation NUL :: char where
  "NUL \<equiv> CHR 0x00"

definition peek :: "memory \<Rightarrow> nat \<Rightarrow> char" where
  "peek mem a = (if a < length mem then mem ! a else NUL)"

text \<open>The exception classes declared at the head of the file, and \<^verbatim>\<open>std::runtime_error\<close>.\<close>

datatype exception =
    MalformedMessageException
  | MalformedBundleException
  | WrongArgumentTypeException
  | MissingArgumentException
  | ExcessArgumentException
  | runtime_error string

text \<open>
  Modelled from the spec: the type tag constants of \<^verbatim>\<open>OscTypes.h\<close>, which is not part of
  the sources at hand. The letters are those of the spec's table of type tags;
  \<^verbatim>\<open>SYMBOL_TYPE_TAG\<close> is not in that table and takes the letter \<open>S\<close> of the OSC format.
\<close>

definition TRUE_TYPE_TAG :: char where "TRUE_TYPE_TAG = CHR ''T''"
definition FALSE_TYPE_TAG :: char where "FALSE_TYPE_TAG = CHR ''F''"
definition NIL_TYPE_TAG :: char where "NIL_TYPE_TAG = CHR ''N''"
definition INFINITUM_TYPE_TAG :: char where "INFINITUM_TYPE_TAG = CHR ''I''"
definition INT32_TYPE_TAG :: char where "INT32_TYPE_TAG = CHR ''i''"
definition FLOAT_TYPE_TAG :: char where "FLOAT_TYPE_TAG = CHR ''f''"
definition CHAR_TYPE_TAG :: char where "CHAR_TYPE_TAG = CHR ''c''"
definition RGBA_COLOR_TYPE_TAG :: char where "RGBA_COLOR_TYPE_TAG = CHR ''r''"
definition MIDI_MESSAGE_TYPE_TAG :: char where "MIDI_MESSAGE_TYPE_TAG = CHR ''m''"
definition INT64_TYPE_TAG :: char where "INT64_TYPE_TAG = CHR ''h''"
definition TIME_TAG_TYPE_TAG :: char where "TIME_TAG_TYPE_TAG = CHR ''t''"
definition DOUBLE_TYPE_TAG :: char where "DOUBLE_TYPE_TAG = CHR ''d''"
definition STRING_TYPE_TAG :: char where "STRING_TYPE_TAG = CHR ''s''"
definition SYMBOL_TYPE_TAG :: char where "SYMBOL_TYPE_TAG = CHR ''S''"
definition BLOB_TYPE_TAG :: char where "BLOB_TYPE_TAG = CHR ''b''"


subsection \<open>\<^verbatim>\<open>ReceivedMessageArgument\<close>\<close>

record ReceivedMessageArgument =
  typeTagPtr :: nat
  argumentPtr :: nat

definition TypeTag :: "memory \<Rightarrow> ReceivedMessageArgument \<Rightarrow> char" where
  "TypeTag mem a = peek mem (typeTagPtr a)"

definition IsBool :: "memory \<Rightarrow> ReceivedMessageArgument \<Rightarrow> bool" where
  "IsBool mem a \<longleftrightarrow>
     peek mem (typeTagPtr a) = TRUE_TYPE_TAG \<or> peek mem (typeTagPtr a) = FALSE_TYPE_TAG"

definition IsInt32 :: "memory \<Rightarrow> ReceivedMessageArgument \<Rightarrow> bool" where
  "IsInt32 mem a \<longleftrightarrow> peek mem (typeTagPtr a) = INT32_TYPE_TAG"

definition IsFloat :: "memory \<Rightarrow> ReceivedMessageArgument \<Rightarrow> bool" where
  "IsFloat mem a \<longleftrightarrow> peek mem (typeTagPtr a) = FLOAT_TYPE_TAG"

definition IsChar :: "memory \<Rightarrow> ReceivedMessageArgument \<Rightarrow> bool" where
  "IsChar mem a \<longleftrightarrow> peek mem (typeTagPtr a) = CHAR_TYPE_TAG"

definition IsRgbaColor :: "memory \<Rightarrow> ReceivedMessageArgument \<Rightarrow> bool" where
  "IsRgbaColor mem a \<longleftrightarrow> peek mem (typeTagPtr a) = RGBA_COLOR_TYPE_TAG"

definition IsMidiMessage :: "memory \<Rightarrow> ReceivedMessageArgument \<Rightarrow> bool" where
  "IsMidiMessage mem a \<longleftrightarrow> peek mem (typeTagPtr a) = MIDI_MESSAGE_TYPE_TAG"

definition IsInt64 :: "memory \<Rightarrow> ReceivedMessageArgument \<Rightarrow> bool" where
  "IsInt64 mem a \<longleftrightarrow> peek mem (typeTagPtr a) = INT64_TYPE_TAG"

definition IsTimeTag :: "memory \<Rightarrow> ReceivedMessageArgument \<Rightarrow> bool" where
  "IsTimeTag mem a \<longleftrightarrow> peek mem (typeTagPtr a) = TIME_TAG_TYPE_TAG"

definition IsDouble :: "memory \<Rightarrow> ReceivedMessageArgument \<Rightarrow> bool" where
  "IsDouble mem a \<longleftrightarrow> peek mem (typeTagPtr a) = DOUBLE_TYPE_TAG"

definition IsString :: "memory \<Rightarrow> ReceivedMessageArgument \<Rightarrow> bool" where
  "IsString mem a \<longleftrightarrow> peek mem (typeTagPtr a) = STRING_TYPE_TAG"

definition IsSymbol :: "memory \<Rightarrow> ReceivedMessageArgument \<Rightarrow> bool" where
  "IsSymbol mem a \<longleftrightarrow> peek mem (typeTagPtr a) = SYMBOL_TYPE_TAG"

definition IsBlob :: "memory \<Rightarrow> ReceivedMessageArgument \<Rightarrow> bool" where
  "IsBlob mem a \<longleftrightarrow> peek mem (typeTagPtr a) = BLOB_TYPE_TAG"

definition AsStringUnchecked :: "ReceivedMessageArgument \<Rightarrow> nat" where
  "AsStringUnchecked a = argumentPtr a"

definition AsSymbolUnchecked :: "ReceivedMessageArgument \<Rightarrow> nat" where
  "AsSymbolUnchecked a = argumentPtr a"

text \<open>
  The values an accessor hands back. A \<^verbatim>\<open>float\<close> or \<^verbatim>\<open>double\<close> is kept as the bits it
  was received as; a string, symbol or blob is a pointer into the store (with the blob's
  size), since the accessors return borrowed views.
\<close>

datatype argument_value =
    BoolValue bool
  | Int32Value "32 word"
  | FloatBits "32 word"
  | CharValue char
  | RgbaColorValue "32 word"
  | MidiMessageValue "32 word"
  | Int64Value "64 word"
  | TimeTagValue "64 word"
  | DoubleBits "64 word"
  | StringValue nat
  | SymbolValue nat
  | BlobValue nat nat

text \<open>Big-endian reads of four and of eight bytes of the store.\<close>

definition ToUInt32 :: "memory \<Rightarrow> nat \<Rightarrow> 32 word" where
  "ToUInt32 mem p =
     push_bit 24 (of_char (peek mem p)) + push_bit 16 (of_char (peek mem (p + 1)))
       + push_bit 8 (of_char (peek mem (p + 2))) + of_char (peek mem (p + 3))"

definition ToUInt64 :: "memory \<Rightarrow> nat \<Rightarrow> 64 word" where
  "ToUInt64 mem p =
     push_bit 32 (ucast (ToUInt32 mem p)) + ucast (ToUInt32 mem (p + 4))"

text \<open>
  Modelled from the spec: the checked accessors \<^verbatim>\<open>AsBool\<close>, \<^verbatim>\<open>AsInt32\<close>, ...,
  \<^verbatim>\<open>AsBlob\<close>, which the header declares and \<^verbatim>\<open>OscReceivedElements.cpp\<close> (not among the
  sources at hand) defines. By the spec a checked accessor "verifies the current tag
  matches before decoding" and "fails with a wrong-argument-type error otherwise"; the
  payloads are those of the spec's table (big-endian, four or eight bytes, no bytes for a
  boolean). The blob accessor decodes the four-byte length prefix and checks it against
  the bytes that remain in the store, failing as a malformed message otherwise.
\<close>

datatype target =
    To_bool | To_int32 | To_float | To_char | To_RgbaColor | To_MidiMessage
  | To_int64 | To_TimeTag | To_double | To_Blob | To_string | To_Symbol

fun AsChecked :: "target \<Rightarrow> memory \<Rightarrow> ReceivedMessageArgument \<Rightarrow> exception + argument_value" where
  "AsChecked To_bool mem a =
     (if peek mem (typeTagPtr a) = TRUE_TYPE_TAG then Inr (BoolValue True)
      else if peek mem (typeTagPtr a) = FALSE_TYPE_TAG then Inr (BoolValue False)
      else Inl WrongArgumentTypeException)"
| "AsChecked To_int32 mem a =
     (if IsInt32 mem a then Inr (Int32Value (ToUInt32 mem (argumentPtr a)))
      else Inl WrongArgumentTypeException)"
| "AsChecked To_float mem a =
     (if IsFloat mem a then Inr (FloatBits (ToUInt32 mem (argumentPtr a)))
      else Inl WrongArgumentTypeException)"
| "AsChecked To_char mem a =
     (if IsChar mem a then Inr (CharValue (peek mem (argumentPtr a + 3)))
      else Inl WrongArgumentTypeException)"
| "AsChecked To_RgbaColor mem a =
     (if IsRgbaColor mem a then Inr (RgbaColorValue (ToUInt32 mem (argumentPtr a)))
      else Inl WrongArgumentTypeException)"
| "AsChecked To_MidiMessage mem a =
     (if IsMidiMessage mem a then Inr (MidiMessageValue (ToUInt32 mem (argumentPtr a)))
      else Inl WrongArgumentTypeException)"
| "AsChecked To_int64 mem a =
     (if IsInt64 mem a then Inr (Int64Value (ToUInt64 mem (argumentPtr a)))
      else Inl WrongArgumentTypeException)"
| "AsChecked To_TimeTag mem a =
     (if IsTimeTag mem a then Inr (TimeTagValue (ToUInt64 mem (argumentPtr a)))
      else Inl WrongArgumentTypeException)"
| "AsChecked To_double mem a =
     (if IsDouble mem a then Inr (DoubleBits (ToUInt64 mem (argumentPtr a)))
      else Inl WrongArgumentTypeException)"
| "AsChecked To_Blob mem a =
     (if IsBlob mem a then
        (if argumentPtr a + 4 + unat (ToUInt32 mem (argumentPtr a)) \<le> length mem
         then Inr (BlobValue (argumentPtr a + 4) (unat (ToUInt32 mem (argumentPtr a))))
         else Inl MalformedMessageException)
      else Inl WrongArgumentTypeException)"
| "AsChecked To_string mem a =
     (if IsString mem a then Inr (StringValue (AsStringUnchecked a))
      else Inl WrongArgumentTypeException)"
| "AsChecked To_Symbol mem a =
     (if IsSymbol mem a then Inr (SymbolValue (AsSymbolUnchecked a))
      else Inl WrongArgumentTypeException)"

subsection \<open>\<^verbatim>\<open>ReceivedMessageArgumentIterator\<close>\<close>

record ReceivedMessageArgumentIterator =
  value_arg :: ReceivedMessageArgument

text \<open>
  Modelled from the spec: \<^verbatim>\<open>ReceivedMessageArgumentIterator::Advance\<close>, declared in the
  header and defined in \<^verbatim>\<open>OscReceivedElements.cpp\<close> (not among the sources at hand). The
  cursor moves to the next type tag character, and the argument pointer moves over the
  payload of the current one, whose size the spec's table gives: four bytes for
  \<open>i f c r m\<close>, eight for \<open>h t d\<close>, none for \<open>T F N I\<close>, a NUL-terminated string padded
  to a multiple of four for \<open>s\<close> (and for a symbol), a four-byte length and that many
  bytes padded to a multiple of four for \<open>b\<close>. The spec gives no size for any other
  character; the argument pointer stays where it is then.
\<close>

definition RoundUp4 :: "nat \<Rightarrow> nat" where
  "RoundUp4 n = ((n + 3) div 4) * 4"

definition payload_size :: "memory \<Rightarrow> char \<Rightarrow> nat \<Rightarrow> nat" where
  "payload_size mem tag p =
     (if tag \<in> {INT32_TYPE_TAG, FLOAT_TYPE_TAG, CHAR_TYPE_TAG, RGBA_COLOR_TYPE_TAG,
                 MIDI_MESSAGE_TYPE_TAG} then 4
      else if tag \<in> {INT64_TYPE_TAG, TIME_TAG_TYPE_TAG, DOUBLE_TYPE_TAG} then 8
      else if tag \<in> {STRING_TYPE_TAG, SYMBOL_TYPE_TAG}
        then RoundUp4 (length (takeWhile (\<lambda>c. c \<noteq> NUL) (drop p mem)) + 1)
      else if tag = BLOB_TYPE_TAG then 4 + RoundUp4 (unat (ToUInt32 mem p))
      else 0)"

definition Advance :: "memory \<Rightarrow> ReceivedMessageArgumentIterator \<Rightarrow> ReceivedMessageArgumentIterator" where
  "Advance mem it =
     \<lparr>value_arg = \<lparr>typeTagPtr = typeTagPtr (value_arg it) + 1,
                argumentPtr = argumentPtr (value_arg it)
                  + payload_size mem (peek mem (typeTagPtr (value_arg it))) (argumentPtr (value_arg it))\<rparr>\<rparr>"

text \<open>\<^verbatim>\<open>operator++()\<close> returns the advanced iterator, \<^verbatim>\<open>operator++(int)\<close> the old one;
  both leave the iterator advanced (the second component).\<close>

definition pre_increment ::
  "memory \<Rightarrow> ReceivedMessageArgumentIterator
     \<Rightarrow> ReceivedMessageArgumentIterator \<times> ReceivedMessageArgumentIterator" where
  "pre_increment mem it = (Advance mem it, Advance mem it)"

definition post_increment ::
  "memory \<Rightarrow> ReceivedMessageArgumentIterator
     \<Rightarrow> ReceivedMessageArgumentIterator \<times> ReceivedMessageArgumentIterator" where
  "post_increment mem it = (let old = it in (old, Advance mem it))"

definition IsEqualTo :: "ReceivedMessageArgumentIterator \<Rightarrow> ReceivedMessageArgumentIterator \<Rightarrow> bool" where
  "IsEqualTo lhs rhs \<longleftrightarrow> typeTagPtr (value_arg lhs) = typeTagPtr (value_arg rhs)"

subsection \<open>\<^verbatim>\<open>ReceivedMessageArgumentStream\<close>\<close>

record ReceivedMessageArgumentStream =
  p_it :: ReceivedMessageArgumentIterator
  end_it :: ReceivedMessageArgumentIterator

definition Eos :: "ReceivedMessageArgumentStream \<Rightarrow> bool" where
  "Eos s \<longleftrightarrow> IsEqualTo (p_it s) (end_it s)"

text \<open>
  The twelve typed \<^verbatim>\<open>operator>>\<close> overloads have one body, which differs only in the
  checked accessor it calls; \<open>target\<close> names the overload. The stream is updated in
  place, so the result is the stream as the call leaves it together with the value
  extracted or the exception thrown. In \<^verbatim>\<open>(*p_++).AsInt32()\<close> the increment is
  evaluated before the accessor is called on the argument it returned.
\<close>

definition operator_extract ::
  "target \<Rightarrow> memory \<Rightarrow> ReceivedMessageArgumentStream
     \<Rightarrow> ReceivedMessageArgumentStream \<times> (exception + argument_value)" where
  "operator_extract t mem s =
     (if Eos s then (s, Inl MissingArgumentException)
      else (case post_increment mem (p_it s) of
              (old, advanced) \<Rightarrow> (s\<lparr>p_it := advanced\<rparr>, AsChecked t mem (value_arg old))))"

definition operator_extract_MessageTerminator ::
  "ReceivedMessageArgumentStream \<Rightarrow> ReceivedMessageArgumentStream \<times> (exception + unit)" where
  "operator_extract_MessageTerminator s =
     (if \<not> Eos s then (s, Inl ExcessArgumentException) else (s, Inr ()))"

text \<open>
  A chain \<^verbatim>\<open>args >> a >> b >> ...\<close> of typed extractions: the first exception ends it.
\<close>

fun extract_chain ::
  "target list \<Rightarrow> memory \<Rightarrow> ReceivedMessageArgumentStream
     \<Rightarrow> ReceivedMessageArgumentStream \<times> (exception + argument_value list)" where
  "extract_chain [] mem s = (s, Inr [])"
| "extract_chain (t # ts) mem s =
     (case operator_extract t mem s of
        (s', Inl e) \<Rightarrow> (s', Inl e)
      | (s', Inr v) \<Rightarrow>
          (case extract_chain ts mem s' of
             (s'', Inl e) \<Rightarrow> (s'', Inl e)
           | (s'', Inr vs) \<Rightarrow> (s'', Inr (v # vs))))"

subsection \<open>\<^verbatim>\<open>ReceivedMessage\<close>\<close>

record ReceivedMessage =
  addressPattern :: nat
  typeTagsBegin :: nat
  typeTagsEnd :: nat
  arguments :: nat

text \<open>The difference of the two pointers, converted to \<^verbatim>\<open>unsigned long\<close> (64 bits).\<close>

definition ArgumentCount :: "ReceivedMessage \<Rightarrow> nat" where
  "ArgumentCount m = nat ((int (typeTagsEnd m) - int (typeTagsBegin m)) mod 2 ^ 64)"

definition TypeTags :: "ReceivedMessage \<Rightarrow> nat" where
  "TypeTags m = typeTagsBegin m"

definition ArgumentsBegin :: "ReceivedMessage \<Rightarrow> ReceivedMessageArgumentIterator" where
  "ArgumentsBegin m = \<lparr>value_arg = \<lparr>typeTagPtr = typeTagsBegin m, argumentPtr = arguments m\<rparr>\<rparr>"

definition ArgumentsEnd :: "ReceivedMessage \<Rightarrow> ReceivedMessageArgumentIterator" where
  "ArgumentsEnd m = \<lparr>value_arg = \<lparr>typeTagPtr = typeTagsEnd m, argumentPtr = 0\<rparr>\<rparr>"

definition ArgumentStream :: "ReceivedMessage \<Rightarrow> ReceivedMessageArgumentStream" where
  "ArgumentStream m = \<lparr>p_it = ArgumentsBegin m, end_it = ArgumentsEnd m\<rparr>"

text \<open>
  Modelled from the spec: \<^verbatim>\<open>ReceivedMessage::Init\<close>, declared in the header and defined
  in \<^verbatim>\<open>OscReceivedElements.cpp\<close> (not among the sources at hand). By the spec the address
  pattern is scanned for its NUL terminator within the bounds of the message, and the
  type tag string starts at the next offset after the terminator that is a multiple of
  four; it must begin with a comma and is scanned for its NUL terminator in turn; the
  argument data begins at the next offset after that terminator that is a multiple of
  four. A missing terminator or comma is a malformed message. The type tags exposed are
  the characters after the comma.
\<close>

fun FindNul :: "memory \<Rightarrow> nat \<Rightarrow> nat \<Rightarrow> nat option" where
  "FindNul mem p 0 = None"
| "FindNul mem p (Suc k) = (if peek mem p = NUL then Some p else FindNul mem (Suc p) k)"

definition Init :: "memory \<Rightarrow> nat \<Rightarrow> nat \<Rightarrow> exception + ReceivedMessage" where
  "Init mem message sz =
     (case FindNul mem message sz of
        None \<Rightarrow> Inl MalformedMessageException
      | Some z \<Rightarrow>
          (let tags = message + RoundUp4 (z - message + 1) in
           if \<not> (tags < message + sz \<and> peek mem tags = CHR '','')
           then Inl MalformedMessageException
           else (case FindNul mem tags (message + sz - tags) of
                   None \<Rightarrow> Inl MalformedMessageException
                 | Some z' \<Rightarrow>
                     Inr \<lparr>addressPattern = message, typeTagsBegin = tags + 1, typeTagsEnd = z',
                          arguments = message + RoundUp4 (z' - message + 1)\<rparr>)))"

text \<open>
  The loop \<^verbatim>\<open>for (i = m.ArgumentsBegin(); i != m.ArgumentsEnd(); ++i)\<close> over the
  arguments of a message, collecting the argument \<^verbatim>\<open>*i\<close> of every round. Nothing bounds
  the loop in the source, so the function is partial: \<open>None\<close> is the loop that never
  reaches its end.
\<close>

definition operator_neq ::
  "ReceivedMessageArgumentIterator \<Rightarrow> ReceivedMessageArgumentIterator \<Rightarrow> bool" where
  "operator_neq lhs rhs \<longleftrightarrow> \<not> IsEqualTo lhs rhs"

partial_function (option) iterate_arguments ::
  "memory \<Rightarrow> ReceivedMessageArgumentIterator \<Rightarrow> ReceivedMessageArgumentIterator
     \<Rightarrow> ReceivedMessageArgument list option" where
  "iterate_arguments mem i e =
     (if operator_neq i e
      then Option.bind (iterate_arguments mem (snd (pre_increment mem i)) e)
             (\<lambda>rest. Some (value_arg i # rest))
      else Some [])"

text \<open>
  The wire format of a string (spec, external interfaces): its characters, a NUL, and
  further NULs up to a multiple of four bytes. The type tags with a payload size in the
  spec's table, and the symbol.
\<close>

definition OscString :: "string \<Rightarrow> char list" where
  "OscString s = s @ replicate (4 - length s mod 4) NUL"

definition known_type_tags :: "char set" where
  "known_type_tags =
     {TRUE_TYPE_TAG, FALSE_TYPE_TAG, NIL_TYPE_TAG, INFINITUM_TYPE_TAG, INT32_TYPE_TAG,
      FLOAT_TYPE_TAG, CHAR_TYPE_TAG, RGBA_COLOR_TYPE_TAG, MIDI_MESSAGE_TYPE_TAG,
      INT64_TYPE_TAG, TIME_TAG_TYPE_TAG, DOUBLE_TYPE_TAG, STRING_TYPE_TAG, SYMBOL_TYPE_TAG,
      BLOB_TYPE_TAG}"

section \<open>The receive multiplexer: \<^verbatim>\<open>oscpack/ip/posix/UdpSocket.h\<close>\<close>

text \<open>
  \<^verbatim>\<open>SocketReceiveMultiplexerImplementation::Run\<close> talks to the operating system
  (\<^verbatim>\<open>select\<close>, \<^verbatim>\<open>recvfrom\<close>, the clock, the break pipe), to the listeners attached to it,
  and, through \<^verbatim>\<open>break_\<close> and the pipe, to other threads. The model is a function of what
  these return: a listener is a function of the state of the world outside, which also
  says which of \<^verbatim>\<open>Break()\<close> and \<^verbatim>\<open>AsynchronousBreak()\<close> it called on the multiplexer, and
  every round of the \<^verbatim>\<open>while\<close> loop takes one \<open>pass_input\<close> with what the system calls of
  that round return. Every call made to a collaborator is appended to \<open>calls\<close>. Calls
  of other threads enter while \<^verbatim>\<open>select\<close> blocks; that the kernel wakes \<^verbatim>\<open>select\<close> when
  the pipe is written is part of the input, which says when \<^verbatim>\<open>select\<close> returns.

  A listener and a socket are known by their identity: a number for the listener
  object, the descriptor \<^verbatim>\<open>Socket()\<close> for the socket. Times are \<^verbatim>\<open>double\<close>s in the source
  that hold whole numbers of milliseconds (a millisecond count of the steady clock, plus
  \<^verbatim>\<open>int\<close> delays and periods), exact below \<open>2\<^sup>5\<^sup>3\<close>; they are integers here.
\<close>

text \<open>
  \<^verbatim>\<open>IpEndpointName\<close>, \<^verbatim>\<open>PacketListener\<close> and \<^verbatim>\<open>TimerListener\<close> are declared in headers of
  the library that this file includes; \<^verbatim>\<open>Run\<close> uses the members \<^verbatim>\<open>address\<close> and \<^verbatim>\<open>port\<close> of
  the first and the virtual calls \<^verbatim>\<open>ProcessPacket\<close> and \<^verbatim>\<open>TimerExpired\<close> of the others.
\<close>

record IpEndpointName =
  address :: nat
  port :: int

record AttachedTimerListener =
  initialDelayMs :: int
  periodMs :: int
  listener :: nat

definition CompareScheduledTimerCalls ::
  "int \<times> AttachedTimerListener \<Rightarrow> int \<times> AttachedTimerListener \<Rightarrow> bool" where
  "CompareScheduledTimerCalls lhs rhs \<longleftrightarrow> fst lhs < fst rhs"

text \<open>
  The calls \<^verbatim>\<open>Run\<close> makes: \<^verbatim>\<open>ReceiveFrom\<close> on the socket of a registration (with the
  registration's listener and socket, the size returned, and the buffer and sender as
  the call leaves them), \<^verbatim>\<open>ProcessPacket(data, size, remoteEndpoint)\<close> on a packet
  listener, \<^verbatim>\<open>TimerExpired()\<close> on a timer listener.
\<close>

datatype call =
    ReceiveFrom nat int nat "char list" IpEndpointName
  | ProcessPacket nat "char list" int IpEndpointName
  | TimerExpired nat

datatype request = Break_called | AsynchronousBreak_called

text \<open>
  What \<^verbatim>\<open>Run\<close> calls outside its own code: the two virtual calls of the listeners, and
  \<^verbatim>\<open>std::sort\<close> with \<^verbatim>\<open>CompareScheduledTimerCalls\<close> on the timer queue. The standard says
  of \<^verbatim>\<open>std::sort\<close> that its result holds the same entries ordered by the comparison, here
  by expiry time, and leaves the order of entries of equal time to the implementation:
  \<open>std_sort_of\<close> is any function, and \<open>sorts_by_expiry\<close> says what the standard promises.
\<close>

record 'w listeners =
  ProcessPacket_of :: "nat \<Rightarrow> char list \<Rightarrow> int \<Rightarrow> IpEndpointName \<Rightarrow> 'w \<Rightarrow> 'w \<times> request list"
  TimerExpired_of :: "nat \<Rightarrow> 'w \<Rightarrow> 'w \<times> request list"
  std_sort_of :: "(int \<times> AttachedTimerListener) list \<Rightarrow> (int \<times> AttachedTimerListener) list"

definition sorts_by_expiry ::
  "((int \<times> AttachedTimerListener) list \<Rightarrow> (int \<times> AttachedTimerListener) list) \<Rightarrow> bool" where
  "sorts_by_expiry std_sort \<longleftrightarrow>
     (\<forall>queue. sorted (map fst (std_sort queue)) \<and> mset (std_sort queue) = mset queue)"

text \<open>
  The multiplexer: its data members (\<open>breakPipe\<close> counts the bytes written to the pipe
  and not yet read), the locals of \<^verbatim>\<open>Run\<close> that live across rounds, the calls made so far
  and the world outside. \<open>data\<close> holds the bytes of the receive buffer that the last
  successful read stored; \<^verbatim>\<open>Run\<close> reads no other byte of the buffer.
\<close>

record 'w multiplexer =
  socketListeners :: "(nat \<times> int) list"
  timerListeners :: "AttachedTimerListener list"
  break_flag :: bool
  breakPipe :: nat
  timerQueue :: "(int \<times> AttachedTimerListener) list"
  data :: "char list"
  remoteEndpoint :: IpEndpointName
  currentTimeMs :: int
  calls :: "call list"
  world :: 'w

text \<open>
  Registration. \<^verbatim>\<open>AttachSocketListener\<close> asserts that the pair is not registered yet:
  \<open>None\<close> is the failed assertion.
\<close>

definition AttachSocketListener :: "int \<Rightarrow> nat \<Rightarrow> 'w multiplexer \<Rightarrow> 'w multiplexer option" where
  "AttachSocketListener socket l s =
     (if (l, socket) \<in> set (socketListeners s) then None
      else Some (s\<lparr>socketListeners := socketListeners s @ [(l, socket)]\<rparr>))"

definition AttachPeriodicTimerListener :: "int \<Rightarrow> nat \<Rightarrow> 'w multiplexer \<Rightarrow> 'w multiplexer" where
  "AttachPeriodicTimerListener periodMilliseconds l s =
     s\<lparr>timerListeners := timerListeners s
          @ [\<lparr>initialDelayMs = periodMilliseconds, periodMs = periodMilliseconds, listener = l\<rparr>]\<rparr>"

definition AttachPeriodicTimerListener_delayed ::
  "int \<Rightarrow> int \<Rightarrow> nat \<Rightarrow> 'w multiplexer \<Rightarrow> 'w multiplexer" where
  "AttachPeriodicTimerListener_delayed initialDelayMilliseconds periodMilliseconds l s =
     s\<lparr>timerListeners := timerListeners s
          @ [\<lparr>initialDelayMs = initialDelayMilliseconds, periodMs = periodMilliseconds,
              listener = l\<rparr>]\<rparr>"

definition Break :: "'w multiplexer \<Rightarrow> 'w multiplexer" where
  "Break s = s\<lparr>break_flag := True\<rparr>"

definition AsynchronousBreak :: "'w multiplexer \<Rightarrow> 'w multiplexer" where
  "AsynchronousBreak s = (s\<lparr>break_flag := True\<rparr>)\<lparr>breakPipe := breakPipe s + 1\<rparr>"

fun perform :: "request \<Rightarrow> 'w multiplexer \<Rightarrow> 'w multiplexer" where
  "perform Break_called s = Break s"
| "perform AsynchronousBreak_called s = AsynchronousBreak s"

definition perform_all :: "request list \<Rightarrow> 'w multiplexer \<Rightarrow> 'w multiplexer" where
  "perform_all rs s = fold perform rs s"

definition call_ProcessPacket ::
  "'w listeners \<Rightarrow> nat \<Rightarrow> char list \<Rightarrow> int \<Rightarrow> IpEndpointName \<Rightarrow> 'w multiplexer \<Rightarrow> 'w multiplexer" where
  "call_ProcessPacket L l d n ep s =
     (case ProcessPacket_of L l d n ep (world s) of
        (w, rs) \<Rightarrow> perform_all rs (s\<lparr>calls := calls s @ [ProcessPacket l d n ep], world := w\<rparr>))"

definition call_TimerExpired :: "'w listeners \<Rightarrow> nat \<Rightarrow> 'w multiplexer \<Rightarrow> 'w multiplexer" where
  "call_TimerExpired L l s =
     (case TimerExpired_of L l (world s) of
        (w, rs) \<Rightarrow> perform_all rs (s\<lparr>calls := calls s @ [TimerExpired l], world := w\<rparr>))"

text \<open>
  \<^verbatim>\<open>UdpSocketImplementation::ReceiveFrom\<close>: \<^verbatim>\<open>recvfrom\<close> fails (a negative result) or
  stores at most \<open>size\<close> bytes of the datagram and the sender's address. The result is
  the size returned, the endpoint and the buffer.
\<close>

datatype recvfrom_result = recvfrom_failed | recvfrom_datagram "char list" IpEndpointName

definition UdpSocket_ReceiveFrom ::
  "recvfrom_result \<Rightarrow> IpEndpointName \<Rightarrow> char list \<Rightarrow> nat \<Rightarrow> nat \<times> IpEndpointName \<times> char list" where
  "UdpSocket_ReceiveFrom r endpoint buffer size_arg =
     (case r of
        recvfrom_failed \<Rightarrow> (0, endpoint, buffer)
      | recvfrom_datagram payload fromAddr \<Rightarrow>
          (length (take size_arg payload), fromAddr, take size_arg payload))"

text \<open>\<^verbatim>\<open>strcmp(a, b) == 0\<close> for a buffer \<open>a\<close> and a string literal \<open>b\<close>.\<close>

definition strcmp_is_0 :: "char list \<Rightarrow> string \<Rightarrow> bool" where
  "strcmp_is_0 a b \<longleftrightarrow> takeWhile (\<lambda>c. c \<noteq> NUL) a = b"

definition MAX_BUFFER_SIZE :: nat where
  "MAX_BUFFER_SIZE = 4098"

text \<open>\<^verbatim>\<open>EINTR\<close> of \<^verbatim>\<open>errno.h\<close>, a header of the system: 4 on Linux, macOS and the BSDs.\<close>

definition EINTR :: int where
  "EINTR = 4"

datatype select_result = select_failed int | select_returned "int \<Rightarrow> bool"

text \<open>
  What one round of the loop gets from outside: the calls of \<^verbatim>\<open>Break()\<close> and
  \<^verbatim>\<open>AsynchronousBreak()\<close> that other threads make while \<^verbatim>\<open>select\<close> blocks, what \<^verbatim>\<open>select\<close>
  returns (\<^verbatim>\<open>errno\<close>, or the sockets it reports readable; the break pipe is readable when
  a byte is in it), what \<^verbatim>\<open>recvfrom\<close> returns on each socket, and the clock read before
  the timers are run. The timeout handed to \<^verbatim>\<open>select\<close> only decides when it returns,
  which the input says.
\<close>

record pass_input =
  during_wait :: "request list"
  select_returns :: select_result
  recvfrom_returns :: "int \<Rightarrow> recvfrom_result"
  clock :: int

text \<open>
  The \<^verbatim>\<open>for\<close> loop over \<^verbatim>\<open>socketListeners_\<close>. Both \<^verbatim>\<open>break\<close> statements leave this loop only.
\<close>

fun service_sockets ::
  "'w listeners \<Rightarrow> (int \<Rightarrow> bool) \<Rightarrow> (int \<Rightarrow> recvfrom_result) \<Rightarrow> (nat \<times> int) list
     \<Rightarrow> 'w multiplexer \<Rightarrow> 'w multiplexer" where
  "service_sockets L FD_ISSET recv [] s = s"
| "service_sockets L FD_ISSET recv ((l, socket) # rest) s =
     (if FD_ISSET socket then
        (case UdpSocket_ReceiveFrom (recv socket) (remoteEndpoint s) (data s) MAX_BUFFER_SIZE of
           (size_ret, endpoint, buffer) \<Rightarrow>
             (let s1 = s\<lparr>data := buffer, remoteEndpoint := endpoint,
                         calls := calls s @ [ReceiveFrom l socket size_ret buffer endpoint]\<rparr>
              in if size_ret = 8 \<and> strcmp_is_0 buffer ''__stop_''
                 then s1\<lparr>break_flag := True\<rparr>
                 else if size_ret > 0
                 then (let s2 = call_ProcessPacket L l buffer (int size_ret) endpoint s1
                       in if break_flag s2 then s2
                          else service_sockets L FD_ISSET recv rest s2)
                 else service_sockets L FD_ISSET recv rest s1))
      else service_sockets L FD_ISSET recv rest s)"

text \<open>
  The \<^verbatim>\<open>for\<close> loop over \<^verbatim>\<open>timerQueue_\<close>, which updates the entries in place: the result is
  the queue as the loop leaves it and the flag \<^verbatim>\<open>resort\<close>.
\<close>

fun expired_timers ::
  "'w listeners \<Rightarrow> int \<Rightarrow> (int \<times> AttachedTimerListener) list \<Rightarrow> 'w multiplexer
     \<Rightarrow> (int \<times> AttachedTimerListener) list \<times> bool \<times> 'w multiplexer" where
  "expired_timers L now [] s = ([], False, s)"
| "expired_timers L now (e # es) s =
     (if fst e \<le> now then
        (let s1 = call_TimerExpired L (listener (snd e)) s
         in if break_flag s1 then (e # es, False, s1)
            else (case expired_timers L now es s1 of
                    (es', resort, s2) \<Rightarrow> ((fst e + periodMs (snd e), snd e) # es', True, s2)))
      else (e # es, False, s))"

text \<open>
  The timers of one round: the clock is read, the loop runs, and the queue is sorted
  again if an entry was rescheduled.
\<close>

definition execute_expired_timers :: "'w listeners \<Rightarrow> int \<Rightarrow> 'w multiplexer \<Rightarrow> 'w multiplexer" where
  "execute_expired_timers L now s =
     (case expired_timers L now (timerQueue s) (s\<lparr>currentTimeMs := now\<rparr>) of
        (queue, resort, s1) \<Rightarrow>
          s1\<lparr>timerQueue := (if resort then std_sort_of L queue else queue)\<rparr>)"

text \<open>The \<^verbatim>\<open>TimerExpired\<close> calls for the entries of a list, one after the other.\<close>

definition fire_timers ::
  "'w listeners \<Rightarrow> (int \<times> AttachedTimerListener) list \<Rightarrow> 'w multiplexer \<Rightarrow> 'w multiplexer" where
  "fire_timers L es s = fold (\<lambda>e. call_TimerExpired L (listener (snd e))) es s"

datatype outcome = Returned | Thrown exception | Waiting

text \<open>
  The \<^verbatim>\<open>while( !break_ )\<close> loop, one round for each input; with no input left the loop is
  blocked in \<^verbatim>\<open>select\<close> (\<open>Waiting\<close>). The listeners are taken to return normally.
\<close>

fun event_loop :: "'w listeners \<Rightarrow> pass_input list \<Rightarrow> 'w multiplexer \<Rightarrow> 'w multiplexer \<times> outcome" where
  "event_loop L [] s = (if break_flag s then (s, Returned) else (s, Waiting))"
| "event_loop L (inp # rest) s =
     (if break_flag s then (s, Returned)
      else
        (let s1 = perform_all (during_wait inp) s in
         case select_returns inp of
           select_failed errno \<Rightarrow>
             (if break_flag s1 then (s1, Returned)
              else if errno = EINTR then event_loop L rest s1
              else (s1, Thrown (runtime_error ''select failed\<newline>'')))
         | select_returned FD_ISSET \<Rightarrow>
             (let s2 = (if breakPipe s1 > 0 then s1\<lparr>breakPipe := breakPipe s1 - 1\<rparr> else s1)
              in if break_flag s2 then (s2, Returned)
                 else
                   (let s3 = service_sockets L FD_ISSET (recvfrom_returns inp) (socketListeners s2) s2;
                        s4 = execute_expired_timers L (clock inp) s3
                    in event_loop L rest s4))))"

text \<open>
  \<^verbatim>\<open>Run\<close>: the stop flag is reset, the timer queue is filled from the registrations at
  the time \<open>now\<close> the clock shows and sorted, the buffer is allocated, and the loop runs.
\<close>

definition Run :: "'w listeners \<Rightarrow> int \<Rightarrow> pass_input list \<Rightarrow> 'w multiplexer \<Rightarrow> 'w multiplexer \<times> outcome" where
  "Run L now script s =
     (let s0 = s\<lparr>break_flag := False\<rparr>;
          queue = std_sort_of L (map (\<lambda>i. (now + initialDelayMs i, i)) (timerListeners s0));
          s1 = s0\<lparr>currentTimeMs := now, timerQueue := queue, data := []\<rparr>
      in event_loop L script s1)"

subsection \<open>Properties of the calls made\<close>

text \<open>
  \<open>stop_read\<close>: the call is a read that returned eight bytes that \<^verbatim>\<open>strcmp\<close> finds equal to
  \<^verbatim>\<open>"__stop_"\<close>.

  \<open>handled regs cs\<close>: in the calls \<open>cs\<close>, every read is for a registration of \<open>regs\<close>; a
  read that returned a size above zero, and not the stop datagram, is followed at once by
  one \<^verbatim>\<open>ProcessPacket\<close> call on the listener of that registration with the buffer, the
  size and the sender that the read gave; any other read is followed by no
  \<^verbatim>\<open>ProcessPacket\<close> call; and there is no \<^verbatim>\<open>ProcessPacket\<close> call but those.

  \<open>stop_ends cs\<close>: after a read of the stop datagram, \<open>cs\<close> holds nothing, or one
  \<^verbatim>\<open>TimerExpired\<close> call and nothing else.
\<close>

fun stop_read :: "call \<Rightarrow> bool" where
  "stop_read (ReceiveFrom l socket n d ep) \<longleftrightarrow> n = 8 \<and> strcmp_is_0 d ''__stop_''"
| "stop_read (ProcessPacket l d n ep) \<longleftrightarrow> False"
| "stop_read (TimerExpired l) \<longleftrightarrow> False"

fun handled :: "(nat \<times> int) list \<Rightarrow> call list \<Rightarrow> bool" where
  "handled regs [] \<longleftrightarrow> True"
| "handled regs (ReceiveFrom l socket n d ep # ProcessPacket l' d' n' ep' # cs) \<longleftrightarrow>
     (l, socket) \<in> set regs \<and> 0 < n \<and> \<not> (n = 8 \<and> strcmp_is_0 d ''__stop_'')
     \<and> l' = l \<and> d' = d \<and> n' = int n \<and> ep' = ep \<and> handled regs cs"
| "handled regs (ReceiveFrom l socket n d ep # cs) \<longleftrightarrow>
     (l, socket) \<in> set regs \<and> (n = 0 \<or> n = 8 \<and> strcmp_is_0 d ''__stop_'') \<and> handled regs cs"
| "handled regs (ProcessPacket l d n ep # cs) \<longleftrightarrow> False"
| "handled regs (TimerExpired l # cs) \<longleftrightarrow> handled regs cs"

fun stop_ends :: "call list \<Rightarrow> bool" where
  "stop_ends [] \<longleftrightarrow> True"
| "stop_ends (c # cs) \<longleftrightarrow>
     (if stop_read c
      then (case cs of [] \<Rightarrow> True | [TimerExpired l] \<Rightarrow> True | _ \<Rightarrow> False)
      else stop_ends cs)"

section \<open>Concrete inputs\<close>

text \<open>
  The message of the spec's concrete case, \<^verbatim>\<open>"/foo\0\0\0\0" + ",i\0\0" + int32(42)\<close>, at
  address 0 of the store, and a second message with the type tags \<^verbatim>\<open>,fi\<close>, a float
  and the same integer.
\<close>

definition example_message :: memory where
  "example_message =
     ''/foo'' @ [NUL, NUL, NUL, NUL] @ '',i'' @ [NUL, NUL] @ [NUL, NUL, NUL, CHR 0x2A]"

definition example_message_fi :: memory where
  "example_message_fi =
     ''/foo'' @ [NUL, NUL, NUL, NUL] @ '',fi'' @ [NUL]
       @ [CHR 0x3F, CHR 0x80, NUL, NUL] @ [NUL, NUL, NUL, CHR 0x2A]"

definition example_received :: ReceivedMessage where
  "example_received =
     \<lparr>addressPattern = 0, typeTagsBegin = 9, typeTagsEnd = 10, arguments = 12\<rparr>"

definition example_received_fi :: ReceivedMessage where
  "example_received_fi =
     \<lparr>addressPattern = 0, typeTagsBegin = 9, typeTagsEnd = 11, arguments = 12\<rparr>"

definition stream_at :: "nat \<Rightarrow> nat \<Rightarrow> nat \<Rightarrow> ReceivedMessageArgumentStream" where
  "stream_at tag arg tags_end =
     \<lparr>p_it = \<lparr>value_arg = \<lparr>typeTagPtr = tag, argumentPtr = arg\<rparr>\<rparr>,
      end_it = \<lparr>value_arg = \<lparr>typeTagPtr = tags_end, argumentPtr = 0\<rparr>\<rparr>\<rparr>"

text \<open>
  A multiplexer with one registration (listener 7 on socket 3) and one with three timers
  in its queue; listeners that call nothing back, and listeners whose timer listener 1
  calls \<^verbatim>\<open>Break()\<close>, or timer listener 2; a round in which socket 3 is readable and holds
  the given datagram, and a round in which \<^verbatim>\<open>select\<close> fails with the given \<^verbatim>\<open>errno\<close> after
  the given calls from other threads; a multiplexer with no socket and no timer, a
  round in which another thread calls \<^verbatim>\<open>AsynchronousBreak()\<close> and nothing else happens,
  and a round in which \<^verbatim>\<open>select\<close> returns at the given time with no socket readable.
\<close>

definition quiet_listeners :: "unit listeners" where
  "quiet_listeners =
     \<lparr>ProcessPacket_of = (\<lambda>l d n ep w. (w, [])), TimerExpired_of = (\<lambda>l w. (w, [])),
      std_sort_of = sort_key fst\<rparr>"

definition breaking_listeners :: "unit listeners" where
  "breaking_listeners =
     \<lparr>ProcessPacket_of = (\<lambda>l d n ep w. (w, [])),
      TimerExpired_of = (\<lambda>l w. (w, if l = 1 then [Break_called] else [])),
      std_sort_of = sort_key fst\<rparr>"

definition second_breaking_listeners :: "unit listeners" where
  "second_breaking_listeners =
     \<lparr>ProcessPacket_of = (\<lambda>l d n ep w. (w, [])),
      TimerExpired_of = (\<lambda>l w. (w, if l = 2 then [Break_called] else [])),
      std_sort_of = sort_key fst\<rparr>"

definition sender :: IpEndpointName where
  "sender = \<lparr>address = 2130706433, port = 9000\<rparr>"

definition example_multiplexer :: "unit multiplexer" where
  "example_multiplexer =
     \<lparr>socketListeners = [(7, 3)], timerListeners = [], break_flag = False, breakPipe = 0,
      timerQueue = [], data = [], remoteEndpoint = \<lparr>address = 0, port = 0\<rparr>,
      currentTimeMs = 0, calls = [], world = ()\<rparr>"

definition stop_datagram :: "char list" where
  "stop_datagram = ''__stop_'' @ [NUL]"

definition datagram_pass :: "char list \<Rightarrow> pass_input" where
  "datagram_pass payload =
     \<lparr>during_wait = [], select_returns = select_returned (\<lambda>fd. fd = 3),
      recvfrom_returns = (\<lambda>fd. recvfrom_datagram payload sender), clock = 0\<rparr>"

definition failed_pass :: "request list \<Rightarrow> int \<Rightarrow> pass_input" where
  "failed_pass requests errno =
     \<lparr>during_wait = requests, select_returns = select_failed errno,
      recvfrom_returns = (\<lambda>fd. recvfrom_failed), clock = 0\<rparr>"

definition idle_multiplexer :: "unit multiplexer" where
  "idle_multiplexer =
     \<lparr>socketListeners = [], timerListeners = [], break_flag = False, breakPipe = 0,
      timerQueue = [], data = [], remoteEndpoint = \<lparr>address = 0, port = 0\<rparr>,
      currentTimeMs = 0, calls = [], world = ()\<rparr>"

definition wake_pass :: pass_input where
  "wake_pass =
     \<lparr>during_wait = [AsynchronousBreak_called], select_returns = select_returned (\<lambda>fd. False),
      recvfrom_returns = (\<lambda>fd. recvfrom_failed), clock = 0\<rparr>"

definition timeout_pass :: "int \<Rightarrow> pass_input" where
  "timeout_pass now =
     \<lparr>during_wait = [], select_returns = select_returned (\<lambda>fd. False),
      recvfrom_returns = (\<lambda>fd. recvfrom_failed), clock = now\<rparr>"

definition timer_1 :: AttachedTimerListener where
  "timer_1 = \<lparr>initialDelayMs = 0, periodMs = 50, listener = 1\<rparr>"

definition timer_2 :: AttachedTimerListener where
  "timer_2 = \<lparr>initialDelayMs = 5, periodMs = 20, listener = 2\<rparr>"

definition timer_3 :: AttachedTimerListener where
  "timer_3 = \<lparr>initialDelayMs = 30, periodMs = 30, listener = 3\<rparr>"

definition timer_multiplexer :: "unit multiplexer" where
  "timer_multiplexer =
     \<lparr>socketListeners = [], timerListeners = [timer_1, timer_2, timer_3], break_flag = False,
      breakPipe = 0, timerQueue = [(0, timer_1), (5, timer_2), (30, timer_3)], data = [],
      remoteEndpoint = \<lparr>address = 0, port = 0\<rparr>, currentTimeMs = 0, calls = [], world = ()\<rparr>"

section \<open>Properties of the message reader\<close>

lemmas type_tag_defs =
  TRUE_TYPE_TAG_def FALSE_TYPE_TAG_def NIL_TYPE_TAG_def INFINITUM_TYPE_TAG_def
  INT32_TYPE_TAG_def FLOAT_TYPE_TAG_def CHAR_TYPE_TAG_def RGBA_COLOR_TYPE_TAG_def
  MIDI_MESSAGE_TYPE_TAG_def INT64_TYPE_TAG_def TIME_TAG_TYPE_TAG_def DOUBLE_TYPE_TAG_def
  STRING_TYPE_TAG_def SYMBOL_TYPE_TAG_def BLOB_TYPE_TAG_def

lemma Init_example_message: "Init example_message 0 16 = Inr example_received"
  by code_simp

lemma Init_example_message_fi: "Init example_message_fi 0 20 = Inr example_received_fi"
  by code_simp

lemma FindNul_found:
  "NUL \<notin> set s \<Longrightarrow> length s < k \<Longrightarrow> p = length pre
    \<Longrightarrow> FindNul (pre @ s @ NUL # post) p k = Some (p + length s)"
proof (induction s arbitrary: p k pre)
  case Nil
  then obtain k' where "k = Suc k'" by (cases k) auto
  with Nil show ?case by (simp add: peek_def)
next
  case (Cons c s)
  then obtain k' where k: "k = Suc k'" by (cases k) auto
  from Cons.prems have c: "c \<noteq> NUL" by auto
  have "FindNul ((pre @ [c]) @ s @ NUL # post) (Suc p) k' = Some (Suc p + length s)"
    using Cons.prems k by (intro Cons.IH) auto
  with c k Cons.prems show ?case by (simp add: peek_def nth_append)
qed

lemma peek_middle: "n = length xs \<Longrightarrow> peek (xs @ y # ys) n = y"
  by (simp add: peek_def)

lemma length_OscString: "length (OscString s) = RoundUp4 (length s + 1)"
  unfolding OscString_def RoundUp4_def by simp presburger

lemma OscString_split: "\<exists>pad. OscString s = s @ NUL # pad"
  unfolding OscString_def
  by (cases "4 - length s mod 4") auto

lemma iterate_tags:
  "typeTagPtr (value_arg i) = length pre \<Longrightarrow> typeTagPtr (value_arg e) = length pre + length tags
   \<Longrightarrow> \<exists>as. iterate_arguments (pre @ tags @ post) i e = Some as
          \<and> map (TypeTag (pre @ tags @ post)) as = tags"
proof (induction tags arbitrary: i pre)
  case Nil
  then show ?case
    by (subst iterate_arguments.simps) (simp add: operator_neq_def IsEqualTo_def)
next
  case (Cons c tags)
  let ?mem = "pre @ (c # tags) @ post"
  let ?i' = "snd (pre_increment ?mem i)"
  have mem: "?mem = (pre @ [c]) @ tags @ post" by simp
  have "typeTagPtr (value_arg ?i') = length (pre @ [c])"
    using Cons.prems by (simp add: pre_increment_def Advance_def)
  moreover have "typeTagPtr (value_arg e) = length (pre @ [c]) + length tags"
    using Cons.prems by simp
  ultimately obtain as where as: "iterate_arguments ((pre @ [c]) @ tags @ post) ?i' e = Some as"
    "map (TypeTag ((pre @ [c]) @ tags @ post)) as = tags"
    using Cons.IH [of ?i' "pre @ [c]"] unfolding mem by blast
  have neq: "operator_neq i e"
    using Cons.prems by (simp add: operator_neq_def IsEqualTo_def)
  have tag: "TypeTag ?mem (value_arg i) = c"
    using Cons.prems by (simp add: TypeTag_def peek_def nth_append)
  have "iterate_arguments ?mem i e = Some (value_arg i # as)"
    using neq as(1) unfolding mem by (subst iterate_arguments.simps) simp
  with as(2) tag show ?case unfolding mem by simp
qed

text \<open>
  C3. A message whose address pattern and type tag string are well formed (no NUL
  inside, the type tags among those of the spec's table, each string terminated and
  padded with NULs to a multiple of four bytes, the type tag string led by a comma), with
  N type tags after the comma, parses; \<^verbatim>\<open>ArgumentCount()\<close> is N, and the loop from
  \<^verbatim>\<open>ArgumentsBegin()\<close> to \<^verbatim>\<open>ArgumentsEnd()\<close> ends after exactly N arguments, whose type
  tags are the characters of the type tag string in order. The message may lie anywhere
  in a store that fits 64-bit addresses.
\<close>

theorem C3_argument_count_and_iteration:
  assumes addr: "NUL \<notin> set addr"
    and tags: "NUL \<notin> set tags" "set tags \<subseteq> known_type_tags"
    and msg: "msg = OscString addr @ OscString (CHR '','' # tags) @ args"
    and mem: "mem = pre @ msg @ post" "length mem < 2 ^ 64"
  shows "\<exists>m as. Init mem (length pre) (length msg) = Inr m
           \<and> ArgumentCount m = length tags
           \<and> iterate_arguments mem (ArgumentsBegin m) (ArgumentsEnd m) = Some as
           \<and> length as = length tags
           \<and> map (TypeTag mem) as = tags"
proof -
  obtain pad1 where pad1: "OscString addr = addr @ NUL # pad1"
    using OscString_split by blast
  obtain pad2 where pad2: "OscString (CHR '','' # tags) = (CHR '','' # tags) @ NUL # pad2"
    using OscString_split by blast
  let ?t = "length pre + RoundUp4 (length addr + 1)"
  have l1: "length (addr @ NUL # pad1) = RoundUp4 (length addr + 1)"
    using length_OscString [of addr] pad1 by simp
  have l2: "length ((CHR '','' # tags) @ NUL # pad2) = RoundUp4 (length tags + 2)"
    using length_OscString [of "CHR '','' # tags"] pad2 by simp
  have memA: "mem = pre @ addr @ NUL # (pad1 @ (CHR '','' # tags) @ NUL # pad2 @ args @ post)"
    using mem msg pad1 pad2 by simp
  have f1: "FindNul mem (length pre) (length msg) = Some (length pre + length addr)"
    unfolding memA using addr msg pad1 pad2
    by (intro FindNul_found) auto
  have memB: "mem = (pre @ addr @ NUL # pad1) @ (CHR '','' # tags) @ NUL # (pad2 @ args @ post)"
    using memA by simp
  have lenB: "length (pre @ addr @ NUL # pad1) = ?t"
    using l1 by simp
  have lmsg: "length msg = RoundUp4 (length addr + 1) + RoundUp4 (length tags + 2) + length args"
    using msg pad1 pad2 l1 l2 by simp
  have r2: "length tags + 2 \<le> RoundUp4 (length tags + 2)"
    unfolding RoundUp4_def by presburger
  have f2: "FindNul mem ?t (length pre + length msg - ?t) = Some (?t + length (CHR '','' # tags))"
    unfolding memB using tags lmsg r2 lenB
    by (intro FindNul_found) auto
  have comma: "peek mem ?t = CHR '',''"
  proof -
    have "peek ((pre @ addr @ NUL # pad1) @ CHR '','' # (tags @ NUL # pad2 @ args @ post)) ?t
            = CHR '',''"
      by (rule peek_middle) (simp only: lenB)
    then show ?thesis using memA by simp
  qed
  have inb: "?t < length pre + length msg"
    using lmsg r2 by simp
  define m where "m = \<lparr>addressPattern = length pre, typeTagsBegin = ?t + 1,
     typeTagsEnd = ?t + 1 + length tags,
     arguments = length pre + RoundUp4 (?t + 1 + length tags - length pre + 1)\<rparr>"
  have init: "Init mem (length pre) (length msg) = Inr m"
    using f1 f2 comma inb by (simp add: Init_def m_def Let_def)
  have "length tags < 2 ^ 64"
    using mem(2) memA by simp
  then have cnt: "ArgumentCount m = length tags"
    by (simp add: ArgumentCount_def m_def)
  have memC: "mem = (pre @ addr @ NUL # pad1 @ [CHR '','']) @ tags @ (NUL # pad2 @ args @ post)"
    using memA by simp
  have lenC: "length (pre @ addr @ NUL # pad1 @ [CHR '','']) = ?t + 1"
    using l1 by simp
  obtain as where as: "iterate_arguments mem (ArgumentsBegin m) (ArgumentsEnd m) = Some as"
    "map (TypeTag mem) as = tags"
    using iterate_tags [of "ArgumentsBegin m" "pre @ addr @ NUL # pad1 @ [CHR '','']" "ArgumentsEnd m" tags
        "NUL # pad2 @ args @ post"] lenC
    unfolding memC [symmetric]
    by (auto simp: ArgumentsBegin_def ArgumentsEnd_def m_def simp del: length_append)
  from as(2) have "length as = length tags"
    by (metis length_map)
  with init cnt as show ?thesis by blast
qed

theorem C3_argument_count_and_iteration_witness:
  "NUL \<notin> set ''/foo'' \<and> NUL \<notin> set ''i'' \<and> set ''i'' \<subseteq> known_type_tags
   \<and> example_message = OscString ''/foo'' @ OscString (CHR '','' # ''i'') @ [NUL, NUL, NUL, CHR 0x2A]
   \<and> (\<exists>m as. Init example_message 0 16 = Inr m
          \<and> ArgumentCount m = 1
          \<and> iterate_arguments example_message (ArgumentsBegin m) (ArgumentsEnd m) = Some as
          \<and> length as = 1
          \<and> map (TypeTag example_message) as = ''i'')"
proof -
  have h1: "NUL \<notin> set ''/foo''" and h2: "NUL \<notin> set ''i''"
    by simp_all
  have h3: "set ''i'' \<subseteq> known_type_tags"
    by (simp add: known_type_tags_def type_tag_defs)
  have h4: "example_message
      = OscString ''/foo'' @ OscString (CHR '','' # ''i'') @ [NUL, NUL, NUL, CHR 0x2A]"
    by code_simp
  have h5: "example_message = [] @ example_message @ []"
    by simp
  have h6: "length example_message < 2 ^ 64"
    by (simp add: example_message_def)
  have len: "length example_message = 16"
    by (simp add: example_message_def)
  note r = C3_argument_count_and_iteration [OF h1 h2 h3 h4 h5 h6]
  have "\<exists>m as. Init example_message 0 16 = Inr m
          \<and> ArgumentCount m = 1
          \<and> iterate_arguments example_message (ArgumentsBegin m) (ArgumentsEnd m) = Some as
          \<and> length as = 1
          \<and> map (TypeTag example_message) as = ''i''"
    using r len by simp
  with h1 h2 h3 h4 show ?thesis by blast
qed

text \<open>
  C4. A typed extraction throws the missing-argument exception exactly when the stream
  is at its end, and then leaves the stream as it was. When the stream is not at its
  end, the call gives what the checked accessor of the requested type gives on the
  argument under the cursor (its value, or the exception it throws, which is never the
  missing-argument one), and it leaves the cursor advanced by one argument: one step of
  \<^verbatim>\<open>Advance\<close>, the type tag pointer one character further, the end of the stream
  untouched.
\<close>

theorem C4_missing_argument:
  "(snd (operator_extract t mem s) = Inl MissingArgumentException \<longleftrightarrow> Eos s)
   \<and> (Eos s \<longrightarrow> fst (operator_extract t mem s) = s)
   \<and> (\<not> Eos s \<longrightarrow>
        snd (operator_extract t mem s) = AsChecked t mem (value_arg (p_it s))
        \<and> p_it (fst (operator_extract t mem s)) = Advance mem (p_it s)
        \<and> typeTagPtr (value_arg (p_it (fst (operator_extract t mem s))))
            = typeTagPtr (value_arg (p_it s)) + 1
        \<and> end_it (fst (operator_extract t mem s)) = end_it s)"
proof -
  have "AsChecked t mem a \<noteq> Inl MissingArgumentException" for a
    by (cases t) simp_all
  then show ?thesis
    by (simp add: operator_extract_def post_increment_def Advance_def)
qed

theorem C4_missing_argument_witness:
  "\<not> Eos (stream_at 9 12 10)
   \<and> operator_extract To_int32 example_message (stream_at 9 12 10)
       = (stream_at 10 16 10, Inr (Int32Value 42))
   \<and> Eos (stream_at 10 16 10)
   \<and> operator_extract To_int32 example_message (stream_at 10 16 10)
       = (stream_at 10 16 10, Inl MissingArgumentException)"
proof -
  have a: "\<not> Eos (stream_at 9 12 10)" and b: "Eos (stream_at 10 16 10)"
    by (simp_all add: Eos_def IsEqualTo_def stream_at_def)
  have c: "AsChecked To_int32 example_message (value_arg (p_it (stream_at 9 12 10)))
      = Inr (Int32Value 42)"
    by code_simp
  have d: "Advance example_message (p_it (stream_at 9 12 10)) = p_it (stream_at 10 16 10)"
    by code_simp
  have e: "end_it (stream_at 9 12 10) = end_it (stream_at 10 16 10)"
    by (simp add: stream_at_def)
  have "operator_extract To_int32 example_message (stream_at 9 12 10)
      = (stream_at 10 16 10, Inr (Int32Value 42))"
    using C4_missing_argument [of To_int32 example_message "stream_at 9 12 10"] a c d e
    by (cases "operator_extract To_int32 example_message (stream_at 9 12 10)")
      (simp add: ReceivedMessageArgumentStream.equality)
  moreover have "operator_extract To_int32 example_message (stream_at 10 16 10)
      = (stream_at 10 16 10, Inl MissingArgumentException)"
    using C4_missing_argument [of To_int32 example_message "stream_at 10 16 10"] b
    by (cases "operator_extract To_int32 example_message (stream_at 10 16 10)") simp
  ultimately show ?thesis using a b by simp
qed

lemma extract_chain_cursor:
  "snd (extract_chain ts mem s) = Inr vs \<Longrightarrow>
     typeTagPtr (value_arg (p_it (fst (extract_chain ts mem s))))
       = typeTagPtr (value_arg (p_it s)) + length ts
     \<and> end_it (fst (extract_chain ts mem s)) = end_it s"
proof (induction ts arbitrary: s vs)
  case Nil
  then show ?case by simp
next
  case (Cons t ts)
  obtain s1 r1 where step: "operator_extract t mem s = (s1, r1)"
    by (cases "operator_extract t mem s")
  from Cons.prems step obtain v where r1: "r1 = Inr v"
    by (cases r1) auto
  obtain s2 r2 where rest: "extract_chain ts mem s1 = (s2, r2)"
    by (cases "extract_chain ts mem s1")
  from Cons.prems step r1 rest obtain ws where r2: "r2 = Inr ws"
    by (cases r2) auto
  from step r1 have s1: "typeTagPtr (value_arg (p_it s1)) = typeTagPtr (value_arg (p_it s)) + 1"
    and e1: "end_it s1 = end_it s"
    by (auto simp: operator_extract_def post_increment_def Advance_def split: if_splits)
  from Cons.IH [of s1 ws] rest r2
  have "typeTagPtr (value_arg (p_it s2)) = typeTagPtr (value_arg (p_it s1)) + length ts"
    and "end_it s2 = end_it s1"
    by simp_all
  with s1 e1 step r1 rest r2 show ?case by simp
qed

text \<open>
  C5. The terminal extraction \<^verbatim>\<open>operator>>(MessageTerminator&)\<close> throws the
  excess-argument exception exactly when the stream is not at its end, that is when an
  argument remains unconsumed; it never changes the stream, and at the end of the stream
  it succeeds. In particular, once a chain of typed extractions has consumed N arguments
  of a message whose type tags run over N characters, the terminal extraction succeeds
  and leaves the stream as it was; after fewer than N it throws.
\<close>

theorem C5_expect_end:
  "(snd (operator_extract_MessageTerminator s) = Inl ExcessArgumentException \<longleftrightarrow> \<not> Eos s)
   \<and> fst (operator_extract_MessageTerminator s) = s
   \<and> (Eos s \<longrightarrow> operator_extract_MessageTerminator s = (s, Inr ()))
   \<and> (typeTagsEnd m = typeTagsBegin m + n
        \<and> extract_chain ts mem (ArgumentStream m) = (s', Inr vs)
      \<longrightarrow> operator_extract_MessageTerminator s'
            = (s', if length ts = n then Inr () else Inl ExcessArgumentException))"
proof -
  have "operator_extract_MessageTerminator s'
      = (s', if length ts = n then Inr () else Inl ExcessArgumentException)"
    if len: "typeTagsEnd m = typeTagsBegin m + n"
      and run: "extract_chain ts mem (ArgumentStream m) = (s', Inr vs)"
  proof -
    from run have "snd (extract_chain ts mem (ArgumentStream m)) = Inr vs"
      and "fst (extract_chain ts mem (ArgumentStream m)) = s'"
      by simp_all
    with extract_chain_cursor [of ts mem "ArgumentStream m" vs]
    have "typeTagPtr (value_arg (p_it s')) = typeTagsBegin m + length ts"
      and "end_it s' = ArgumentsEnd m"
      by (simp_all add: ArgumentStream_def ArgumentsBegin_def)
    with len have "Eos s' \<longleftrightarrow> length ts = n"
      by (simp add: Eos_def IsEqualTo_def ArgumentsEnd_def)
    then show ?thesis
      by (simp add: operator_extract_MessageTerminator_def)
  qed
  then show ?thesis
    by (auto simp: operator_extract_MessageTerminator_def)
qed

theorem C5_expect_end_witness:
  "typeTagsEnd example_received = typeTagsBegin example_received + length [To_int32]
   \<and> extract_chain [To_int32] example_message (ArgumentStream example_received)
       = (stream_at 10 16 10, Inr [Int32Value 42])
   \<and> Eos (stream_at 10 16 10)
   \<and> operator_extract_MessageTerminator (stream_at 10 16 10) = (stream_at 10 16 10, Inr ())
   \<and> \<not> Eos (ArgumentStream example_received)
   \<and> operator_extract_MessageTerminator (ArgumentStream example_received)
       = (ArgumentStream example_received, Inl ExcessArgumentException)"
proof -
  have len: "typeTagsEnd example_received = typeTagsBegin example_received + length [To_int32]"
    by (simp add: example_received_def)
  have run: "extract_chain [To_int32] example_message (ArgumentStream example_received)
      = (stream_at 10 16 10, Inr [Int32Value 42])"
    by code_simp
  have a: "Eos (stream_at 10 16 10)" and b: "\<not> Eos (ArgumentStream example_received)"
    by (simp_all add: Eos_def IsEqualTo_def stream_at_def ArgumentStream_def ArgumentsBegin_def
        ArgumentsEnd_def example_received_def)
  have "operator_extract_MessageTerminator (stream_at 10 16 10) = (stream_at 10 16 10, Inr ())"
    using C5_expect_end [where s = "stream_at 10 16 10" and m = example_received and n = 1
        and ts = "[To_int32]" and mem = example_message and s' = "stream_at 10 16 10"
        and vs = "[Int32Value 42]"] len run
    by simp
  moreover have "operator_extract_MessageTerminator (ArgumentStream example_received)
      = (ArgumentStream example_received, Inl ExcessArgumentException)"
    using C5_expect_end [where s = "ArgumentStream example_received" and m = example_received
        and n = 1 and ts = "[]" and mem = example_message and s' = "ArgumentStream example_received"
        and vs = "[]"] len
    by simp
  ultimately show ?thesis using len run a b by simp
qed

text \<open>
  C9. A typed extraction that throws the wrong-argument-type exception has advanced the
  cursor before the accessor threw: the stream it leaves stands one argument further (one
  step of \<^verbatim>\<open>Advance\<close>, the type tag pointer one character further), and the next
  extraction, if the stream is not at its end, applies its accessor to the argument
  after the one that failed.
\<close>

theorem C9_failed_extraction_advances:
  assumes "operator_extract t mem s = (s', Inl WrongArgumentTypeException)"
  shows "p_it s' = Advance mem (p_it s)
    \<and> typeTagPtr (value_arg (p_it s')) = typeTagPtr (value_arg (p_it s)) + 1
    \<and> (\<not> Eos s' \<longrightarrow>
         snd (operator_extract t' mem s') = AsChecked t' mem (value_arg (Advance mem (p_it s))))"
  using assms
  by (auto simp: operator_extract_def post_increment_def Advance_def split: if_splits)

theorem C9_failed_extraction_advances_witness:
  "operator_extract To_int32 example_message_fi (ArgumentStream example_received_fi)
     = (stream_at 10 16 11, Inl WrongArgumentTypeException)
   \<and> typeTagPtr (value_arg (p_it (stream_at 10 16 11)))
       = typeTagPtr (value_arg (p_it (ArgumentStream example_received_fi))) + 1
   \<and> \<not> Eos (stream_at 10 16 11)
   \<and> snd (operator_extract To_int32 example_message_fi (stream_at 10 16 11))
       = Inr (Int32Value 42)"
proof -
  have run: "operator_extract To_int32 example_message_fi (ArgumentStream example_received_fi)
      = (stream_at 10 16 11, Inl WrongArgumentTypeException)"
    by code_simp
  have a: "\<not> Eos (stream_at 10 16 11)"
    by (simp add: Eos_def IsEqualTo_def stream_at_def)
  have b: "AsChecked To_int32 example_message_fi
      (value_arg (Advance example_message_fi (p_it (ArgumentStream example_received_fi))))
      = Inr (Int32Value 42)"
    by code_simp
  note r = C9_failed_extraction_advances [OF run, of To_int32]
  from r have c: "typeTagPtr (value_arg (p_it (stream_at 10 16 11)))
      = typeTagPtr (value_arg (p_it (ArgumentStream example_received_fi))) + 1"
    by blast
  from r a have "snd (operator_extract To_int32 example_message_fi (stream_at 10 16 11))
      = AsChecked To_int32 example_message_fi
          (value_arg (Advance example_message_fi (p_it (ArgumentStream example_received_fi))))"
    by blast
  with b have d: "snd (operator_extract To_int32 example_message_fi (stream_at 10 16 11))
      = Inr (Int32Value 42)"
    by (simp only:)
  from run c a d show ?thesis by blast
qed

section \<open>Properties of the receive multiplexer\<close>

subsection \<open>What the calls leave unchanged\<close>

lemma perform_frame [simp]:
  "calls (perform r s) = calls s" "world (perform r s) = world s"
  "socketListeners (perform r s) = socketListeners s"
  "timerListeners (perform r s) = timerListeners s"
  "timerQueue (perform r s) = timerQueue s" "data (perform r s) = data s"
  "remoteEndpoint (perform r s) = remoteEndpoint s"
  "currentTimeMs (perform r s) = currentTimeMs s"
  "break_flag (perform r s)"
  by (cases r; simp add: Break_def AsynchronousBreak_def)+

lemma perform_all_Nil [simp]: "perform_all [] s = s"
  by (simp add: perform_all_def)

lemma perform_all_Cons [simp]: "perform_all (r # rs) s = perform_all rs (perform r s)"
  by (simp add: perform_all_def)

lemma perform_all_frame [simp]:
  "calls (perform_all rs s) = calls s" "world (perform_all rs s) = world s"
  "socketListeners (perform_all rs s) = socketListeners s"
  "timerListeners (perform_all rs s) = timerListeners s"
  "timerQueue (perform_all rs s) = timerQueue s" "data (perform_all rs s) = data s"
  "remoteEndpoint (perform_all rs s) = remoteEndpoint s"
  "currentTimeMs (perform_all rs s) = currentTimeMs s"
  by (induction rs arbitrary: s; simp)+

lemma perform_all_break [simp]: "break_flag (perform_all rs s) \<longleftrightarrow> break_flag s \<or> rs \<noteq> []"
  by (induction rs arbitrary: s) auto

lemma call_ProcessPacket_frame [simp]:
  "calls (call_ProcessPacket L l d n ep s) = calls s @ [ProcessPacket l d n ep]"
  "socketListeners (call_ProcessPacket L l d n ep s) = socketListeners s"
  "timerQueue (call_ProcessPacket L l d n ep s) = timerQueue s"
  "data (call_ProcessPacket L l d n ep s) = data s"
  "remoteEndpoint (call_ProcessPacket L l d n ep s) = remoteEndpoint s"
  by (simp_all add: call_ProcessPacket_def split: prod.splits)

lemma call_ProcessPacket_break: "break_flag s \<Longrightarrow> break_flag (call_ProcessPacket L l d n ep s)"
  by (simp add: call_ProcessPacket_def split: prod.splits)

lemma call_TimerExpired_frame [simp]:
  "calls (call_TimerExpired L l s) = calls s @ [TimerExpired l]"
  "socketListeners (call_TimerExpired L l s) = socketListeners s"
  "timerQueue (call_TimerExpired L l s) = timerQueue s"
  by (simp_all add: call_TimerExpired_def split: prod.splits)

lemma call_TimerExpired_break: "break_flag s \<Longrightarrow> break_flag (call_TimerExpired L l s)"
  by (simp add: call_TimerExpired_def split: prod.splits)

lemma event_loop_break: "break_flag s \<Longrightarrow> event_loop L script s = (s, Returned)"
  by (cases script) simp_all

subsection \<open>Evaluation on concrete inputs\<close>

lemma ReceiveFrom_datagram:
  "length payload \<le> 4098 \<Longrightarrow>
     UdpSocket_ReceiveFrom (recvfrom_datagram payload from_addr) ep buf MAX_BUFFER_SIZE
       = (length payload, from_addr, payload)"
  by (simp add: UdpSocket_ReceiveFrom_def MAX_BUFFER_SIZE_def)

lemmas run_simps =
  Run_def Let_def execute_expired_timers_def call_ProcessPacket_def call_TimerExpired_def
  strcmp_is_0_def ReceiveFrom_datagram Break_def AsynchronousBreak_def EINTR_def

lemmas example_defs =
  quiet_listeners_def breaking_listeners_def second_breaking_listeners_def
  example_multiplexer_def idle_multiplexer_def stop_datagram_def
  datagram_pass_def failed_pass_def wake_pass_def timeout_pass_def timer_multiplexer_def
  example_message_def

lemma stop_datagram_bytes:
  assumes "length d = 8"
  shows "strcmp_is_0 d ''__stop_'' \<longleftrightarrow> d = ''__stop_'' @ [NUL]"
proof
  assume "strcmp_is_0 d ''__stop_''"
  then have t: "takeWhile (\<lambda>c. c \<noteq> NUL) d = ''__stop_''"
    by (simp add: strcmp_is_0_def)
  have split: "d = takeWhile (\<lambda>c. c \<noteq> NUL) d @ dropWhile (\<lambda>c. c \<noteq> NUL) d"
    by simp
  have "length (takeWhile (\<lambda>c. c \<noteq> NUL) d) + length (dropWhile (\<lambda>c. c \<noteq> NUL) d) = length d"
    by (metis length_append takeWhile_dropWhile_id)
  with t assms have "length (dropWhile (\<lambda>c. c \<noteq> NUL) d) = 1"
    by simp
  then obtain x where x: "dropWhile (\<lambda>c. c \<noteq> NUL) d = [x]"
    by (cases "dropWhile (\<lambda>c. c \<noteq> NUL) d") auto
  then have "\<not> (hd (dropWhile (\<lambda>c. c \<noteq> NUL) d) \<noteq> NUL)"
    using hd_dropWhile [of "\<lambda>c. c \<noteq> NUL" d] by simp
  with x have "x = NUL" by simp
  with split t x show "d = ''__stop_'' @ [NUL]" by simp
next
  assume "d = ''__stop_'' @ [NUL]"
  then show "strcmp_is_0 d ''__stop_''"
    by (simp add: strcmp_is_0_def)
qed

subsection \<open>The calls of the socket loop\<close>

lemma handled_undelivered:
  assumes "(l, socket) \<in> set regs" and "n = 0 \<or> n = 8 \<and> strcmp_is_0 d ''__stop_''"
    and "handled regs cs"
  shows "handled regs (ReceiveFrom l socket n d ep # cs)"
proof (cases cs)
  case Nil
  with assms show ?thesis by simp
next
  case (Cons c cs')
  with assms show ?thesis by (cases c) auto
qed

lemma handled_append: "handled regs xs \<Longrightarrow> handled regs ys \<Longrightarrow> handled regs (xs @ ys)"
  by (induction regs xs rule: handled.induct) (auto intro: handled_undelivered)

lemma stop_ends_append: "\<forall>c \<in> set xs. \<not> stop_read c \<Longrightarrow> stop_ends (xs @ ys) = stop_ends ys"
  by (induction xs) auto

lemma service_sockets_trace:
  "set regs \<subseteq> set all \<Longrightarrow>
   \<exists>new. calls (service_sockets L ready recv regs s) = calls s @ new
     \<and> handled all new
     \<and> ((\<forall>c \<in> set new. \<not> stop_read c)
        \<or> (break_flag (service_sockets L ready recv regs s)
            \<and> (\<exists>pre c. new = pre @ [c] \<and> (\<forall>c \<in> set pre. \<not> stop_read c) \<and> stop_read c)))
     \<and> socketListeners (service_sockets L ready recv regs s) = socketListeners s
     \<and> timerQueue (service_sockets L ready recv regs s) = timerQueue s"
proof (induction regs arbitrary: s)
  case Nil
  then show ?case by simp
next
  case (Cons reg regs)
  obtain l socket where reg: "reg = (l, socket)" by (cases reg)
  from Cons.prems reg have mem: "(l, socket) \<in> set all" and sub: "set regs \<subseteq> set all"
    by auto
  note IH = Cons.IH [OF sub]
  show ?case
  proof (cases "ready socket")
    case False
    with IH [of s] reg show ?thesis by simp
  next
    case True
    obtain n ep buf where rf:
      "UdpSocket_ReceiveFrom (recv socket) (remoteEndpoint s) (data s) MAX_BUFFER_SIZE = (n, ep, buf)"
      by (cases "UdpSocket_ReceiveFrom (recv socket) (remoteEndpoint s) (data s) MAX_BUFFER_SIZE")
    define s1 where "s1 = s\<lparr>data := buf, remoteEndpoint := ep,
      calls := calls s @ [ReceiveFrom l socket n buf ep]\<rparr>"
    let ?rf = "ReceiveFrom l socket n buf ep"
    consider (stop) "n = 8 \<and> strcmp_is_0 buf ''__stop_''"
      | (packet) "\<not> (n = 8 \<and> strcmp_is_0 buf ''__stop_'')" "0 < n"
      | (no_data) "\<not> (n = 8 \<and> strcmp_is_0 buf ''__stop_'')" "n = 0"
      by auto
    then show ?thesis
    proof cases
      case stop
      then have res: "service_sockets L ready recv (reg # regs) s = s1\<lparr>break_flag := True\<rparr>"
        using True rf reg by (auto simp: s1_def Let_def)
      have "calls (s1\<lparr>break_flag := True\<rparr>) = calls s @ [?rf]"
        by (simp add: s1_def)
      moreover have "handled all [?rf]" using mem stop by simp
      moreover have "[?rf] = [] @ [?rf] \<and> (\<forall>c \<in> set []. \<not> stop_read c) \<and> stop_read ?rf"
        using stop by simp
      ultimately show ?thesis unfolding res
        by (intro exI [of _ "[?rf]"]) (auto simp: s1_def)
    next
      case packet
      define s2 where "s2 = call_ProcessPacket L l buf (int n) ep s1"
      let ?pp = "ProcessPacket l buf (int n) ep"
      have c2: "calls s2 = calls s @ [?rf, ?pp]"
        by (simp add: s2_def s1_def)
      have h2: "handled all [?rf, ?pp]" using mem packet by simp
      have ns2: "\<forall>c \<in> set [?rf, ?pp]. \<not> stop_read c" using packet by simp
      have fr2: "socketListeners s2 = socketListeners s" "timerQueue s2 = timerQueue s"
        by (simp_all add: s2_def s1_def)
      show ?thesis
      proof (cases "break_flag s2")
        case True
        then have res: "service_sockets L ready recv (reg # regs) s = s2"
          using \<open>ready socket\<close> rf reg packet by (auto simp: s1_def s2_def Let_def)
        show ?thesis unfolding res using c2 h2 ns2 fr2 by blast
      next
        case False
        then have res: "service_sockets L ready recv (reg # regs) s
            = service_sockets L ready recv regs s2"
          using \<open>ready socket\<close> rf reg packet by (auto simp: s1_def s2_def Let_def)
        from IH [of s2] obtain new where new:
          "calls (service_sockets L ready recv regs s2) = calls s2 @ new"
          "handled all new"
          "(\<forall>c \<in> set new. \<not> stop_read c)
            \<or> (break_flag (service_sockets L ready recv regs s2)
                \<and> (\<exists>pre c. new = pre @ [c] \<and> (\<forall>c \<in> set pre. \<not> stop_read c) \<and> stop_read c))"
          "socketListeners (service_sockets L ready recv regs s2) = socketListeners s2"
          "timerQueue (service_sockets L ready recv regs s2) = timerQueue s2"
          by blast
        have a: "calls (service_sockets L ready recv regs s2) = calls s @ ([?rf, ?pp] @ new)"
          using new(1) c2 by simp
        have b: "handled all ([?rf, ?pp] @ new)"
          using h2 new(2) by (rule handled_append)
        have c: "(\<forall>c \<in> set ([?rf, ?pp] @ new). \<not> stop_read c)
            \<or> (break_flag (service_sockets L ready recv regs s2)
                \<and> (\<exists>pre c. [?rf, ?pp] @ new = pre @ [c] \<and> (\<forall>c \<in> set pre. \<not> stop_read c)
                      \<and> stop_read c))"
        proof (rule disjE [OF new(3)])
          assume "\<forall>c \<in> set new. \<not> stop_read c"
          with ns2 show ?thesis by auto
        next
          assume r: "break_flag (service_sockets L ready recv regs s2)
                \<and> (\<exists>pre c. new = pre @ [c] \<and> (\<forall>c \<in> set pre. \<not> stop_read c) \<and> stop_read c)"
          then obtain pre c where pc: "new = pre @ [c]" "\<forall>c \<in> set pre. \<not> stop_read c" "stop_read c"
            by blast
          have "[?rf, ?pp] @ new = ([?rf, ?pp] @ pre) @ [c]" using pc(1) by simp
          moreover have "\<forall>c \<in> set ([?rf, ?pp] @ pre). \<not> stop_read c" using pc(2) ns2 by auto
          ultimately show ?thesis using r pc(3) by blast
        qed
        show ?thesis unfolding res using a b c new(4,5) fr2 by (intro exI [of _ "[?rf, ?pp] @ new"]) simp
      qed
    next
      case no_data
      then have res: "service_sockets L ready recv (reg # regs) s
          = service_sockets L ready recv regs s1"
        using True rf reg by (auto simp: s1_def Let_def)
      have c1: "calls s1 = calls s @ [?rf]"
        by (simp add: s1_def)
      have h1: "handled all [?rf]" using mem no_data by auto
      have ns1: "\<forall>c \<in> set [?rf]. \<not> stop_read c" using no_data by auto
      have fr1: "socketListeners s1 = socketListeners s" "timerQueue s1 = timerQueue s"
        by (simp_all add: s1_def)
      from IH [of s1] obtain new where new:
        "calls (service_sockets L ready recv regs s1) = calls s1 @ new"
        "handled all new"
        "(\<forall>c \<in> set new. \<not> stop_read c)
          \<or> (break_flag (service_sockets L ready recv regs s1)
              \<and> (\<exists>pre c. new = pre @ [c] \<and> (\<forall>c \<in> set pre. \<not> stop_read c) \<and> stop_read c))"
        "socketListeners (service_sockets L ready recv regs s1) = socketListeners s1"
        "timerQueue (service_sockets L ready recv regs s1) = timerQueue s1"
        by blast
      have a: "calls (service_sockets L ready recv regs s1) = calls s @ ([?rf] @ new)"
        using new(1) c1 by simp
      have b: "handled all ([?rf] @ new)"
        using h1 new(2) by (rule handled_append)
      have c: "(\<forall>c \<in> set ([?rf] @ new). \<not> stop_read c)
          \<or> (break_flag (service_sockets L ready recv regs s1)
              \<and> (\<exists>pre c. [?rf] @ new = pre @ [c] \<and> (\<forall>c \<in> set pre. \<not> stop_read c)
                    \<and> stop_read c))"
      proof (rule disjE [OF new(3)])
        assume "\<forall>c \<in> set new. \<not> stop_read c"
        with ns1 show ?thesis by auto
      next
        assume r: "break_flag (service_sockets L ready recv regs s1)
              \<and> (\<exists>pre c. new = pre @ [c] \<and> (\<forall>c \<in> set pre. \<not> stop_read c) \<and> stop_read c)"
        then obtain pre c where pc: "new = pre @ [c]" "\<forall>c \<in> set pre. \<not> stop_read c" "stop_read c"
          by blast
        have "[?rf] @ new = ([?rf] @ pre) @ [c]" using pc(1) by simp
        moreover have "\<forall>c \<in> set ([?rf] @ pre). \<not> stop_read c" using pc(2) ns1 by auto
        ultimately show ?thesis using r pc(3) by blast
      qed
      show ?thesis unfolding res using a b c new(4,5) fr1 by (intro exI [of _ "[?rf] @ new"]) simp
    qed
  qed
qed

subsection \<open>The timer loop\<close>

lemma expired_timers_break:
  "break_flag s \<Longrightarrow> break_flag (snd (snd (expired_timers L now q s)))"
proof (induction q arbitrary: s)
  case Nil
  then show ?case by simp
next
  case (Cons e es)
  then show ?case
    by (auto simp: Let_def call_TimerExpired_break split: prod.splits)
qed

lemma expired_timers_trace:
  "\<exists>ls. calls (snd (snd (expired_timers L now q s))) = calls s @ map TimerExpired ls
     \<and> (break_flag s \<longrightarrow> length ls \<le> 1)
     \<and> socketListeners (snd (snd (expired_timers L now q s))) = socketListeners s"
proof (induction q arbitrary: s)
  case Nil
  then show ?case by simp
next
  case (Cons e es)
  show ?case
  proof (cases "fst e \<le> now")
    case False
    then show ?thesis by simp
  next
    case True
    define s1 where "s1 = call_TimerExpired L (listener (snd e)) s"
    have c1: "calls s1 = calls s @ map TimerExpired [listener (snd e)]"
      and f1: "socketListeners s1 = socketListeners s"
      by (simp_all add: s1_def)
    show ?thesis
    proof (cases "break_flag s1")
      case True
      then have "snd (snd (expired_timers L now (e # es) s)) = s1"
        using \<open>fst e \<le> now\<close> by (simp add: s1_def Let_def)
      with c1 f1 show ?thesis
        by (intro exI [of _ "[listener (snd e)]"]) simp
    next
      case False
      then have nb: "\<not> break_flag s"
        using call_TimerExpired_break [of s L "listener (snd e)"] by (auto simp: s1_def)
      have res: "snd (snd (expired_timers L now (e # es) s)) = snd (snd (expired_timers L now es s1))"
        using \<open>fst e \<le> now\<close> False by (simp add: s1_def Let_def split: prod.splits)
      from Cons.IH [of s1] obtain ls where ls:
        "calls (snd (snd (expired_timers L now es s1))) = calls s1 @ map TimerExpired ls"
        "socketListeners (snd (snd (expired_timers L now es s1))) = socketListeners s1"
        by blast
      show ?thesis unfolding res using ls c1 f1 nb
        by (intro exI [of _ "listener (snd e) # ls"]) simp
    qed
  qed
qed

lemma expired_timers_all:
  "\<not> break_flag (snd (snd (expired_timers L now q s))) \<Longrightarrow>
     expired_timers L now q s =
       (map (\<lambda>e. (fst e + periodMs (snd e), snd e)) (takeWhile (\<lambda>e. fst e \<le> now) q)
          @ dropWhile (\<lambda>e. fst e \<le> now) q,
        takeWhile (\<lambda>e. fst e \<le> now) q \<noteq> [],
        snd (snd (expired_timers L now q s)))
     \<and> calls (snd (snd (expired_timers L now q s)))
         = calls s @ map (\<lambda>e. TimerExpired (listener (snd e))) (takeWhile (\<lambda>e. fst e \<le> now) q)"
proof (induction q arbitrary: s)
  case Nil
  then show ?case by simp
next
  case (Cons e es)
  show ?case
  proof (cases "fst e \<le> now")
    case False
    then show ?thesis by simp
  next
    case True
    define s1 where "s1 = call_TimerExpired L (listener (snd e)) s"
    have nb1: "\<not> break_flag s1"
    proof
      assume b: "break_flag s1"
      then have "snd (snd (expired_timers L now (e # es) s)) = s1"
        using True by (simp add: s1_def Let_def)
      with Cons.prems b show False by simp
    qed
    obtain es' r s2 where rec: "expired_timers L now es s1 = (es', r, s2)"
      by (cases "expired_timers L now es s1") auto
    have res: "expired_timers L now (e # es) s = ((fst e + periodMs (snd e), snd e) # es', True, s2)"
      using True nb1 rec by (simp add: s1_def Let_def)
    with Cons.prems have "\<not> break_flag (snd (snd (expired_timers L now es s1)))"
      using rec by simp
    from Cons.IH [OF this] rec
    have es': "es' = map (\<lambda>e. (fst e + periodMs (snd e), snd e)) (takeWhile (\<lambda>e. fst e \<le> now) es)
          @ dropWhile (\<lambda>e. fst e \<le> now) es"
      and c2: "calls s2 = calls s1 @ map (\<lambda>e. TimerExpired (listener (snd e)))
          (takeWhile (\<lambda>e. fst e \<le> now) es)"
      by simp_all
    have c1: "calls s1 = calls s @ [TimerExpired (listener (snd e))]"
      by (simp add: s1_def)
    show ?thesis unfolding res using True es' c2 c1 by simp
  qed
qed

lemma expired_timers_unsorted:
  "\<not> fst (snd (expired_timers L now q s)) \<Longrightarrow> fst (expired_timers L now q s) = q"
proof (induction q arbitrary: s)
  case Nil
  then show ?case by simp
next
  case (Cons e es)
  then show ?case
    by (auto simp: Let_def split: if_splits prod.splits)
qed

lemma sort_key_sorts_by_expiry: "sorts_by_expiry (sort_key fst)"
  by (simp add: sorts_by_expiry_def)

lemma expired_timers_sorted:
  assumes "expired_timers L now q s = (q', r, s1)" and "sorted (map fst q)"
    and "sorts_by_expiry (std_sort_of L)"
  shows "sorted (map fst (if r then std_sort_of L q' else q'))"
proof (cases r)
  case True
  with assms(3) show ?thesis by (simp add: sorts_by_expiry_def)
next
  case False
  with assms(1) expired_timers_unsorted [of L now q s] have "q' = q" by simp
  with False assms(2) show ?thesis by simp
qed

lemma sorted_filter_takeWhile:
  "sorted (map fst q) \<Longrightarrow>
     filter (\<lambda>e. fst e \<le> (now::int)) q = takeWhile (\<lambda>e. fst e \<le> now) q
     \<and> filter (\<lambda>e. \<not> fst e \<le> now) q = dropWhile (\<lambda>e. fst e \<le> now) q"
proof (induction q)
  case Nil
  then show ?case by simp
next
  case (Cons e es)
  show ?case
  proof (cases "fst e \<le> now")
    case True
    with Cons show ?thesis by simp
  next
    case False
    with Cons.prems have "\<forall>x \<in> set es. \<not> fst x \<le> now"
      by fastforce
    then have "filter (\<lambda>e. fst e \<le> now) es = []" "filter (\<lambda>e. \<not> fst e \<le> now) es = es"
      by (simp_all add: filter_empty_conv filter_id_conv)
    with False show ?thesis by simp
  qed
qed

subsection \<open>The event loop\<close>

lemma execute_expired_timers_trace:
  "\<exists>ls. calls (execute_expired_timers L now s) = calls s @ map TimerExpired ls
     \<and> (break_flag s \<longrightarrow> length ls \<le> 1 \<and> break_flag (execute_expired_timers L now s))
     \<and> socketListeners (execute_expired_timers L now s) = socketListeners s"
proof -
  let ?s0 = "s\<lparr>currentTimeMs := now\<rparr>"
  obtain q' r s1 where run: "expired_timers L now (timerQueue s) ?s0 = (q', r, s1)"
    by (cases "expired_timers L now (timerQueue s) ?s0") auto
  have res: "execute_expired_timers L now s
      = s1\<lparr>timerQueue := (if r then std_sort_of L q' else q')\<rparr>"
    using run by (simp add: execute_expired_timers_def)
  from expired_timers_trace [of L now "timerQueue s" ?s0] run obtain ls where
    ls: "calls s1 = calls s @ map TimerExpired ls" "break_flag s \<longrightarrow> length ls \<le> 1"
      "socketListeners s1 = socketListeners s"
    by auto
  have "break_flag s \<longrightarrow> break_flag s1"
    using expired_timers_break [of ?s0 L now "timerQueue s"] run by simp
  with ls show ?thesis unfolding res
    by (intro exI [of _ ls]) simp
qed

lemma handled_timers: "handled regs (map TimerExpired ls)"
  by (induction ls) simp_all

lemma no_stop_timers: "\<forall>c \<in> set (map TimerExpired ls). \<not> stop_read c"
  by (induction ls) simp_all

lemma stop_ends_no_stop: "\<forall>c \<in> set xs. \<not> stop_read c \<Longrightarrow> stop_ends xs"
  using stop_ends_append [of xs "[]"] by simp

lemma stop_ends_last:
  "\<forall>c \<in> set pre. \<not> stop_read c \<Longrightarrow> stop_read c \<Longrightarrow> length ls \<le> 1
     \<Longrightarrow> stop_ends ((pre @ [c]) @ map TimerExpired ls)"
proof -
  assume pre: "\<forall>c \<in> set pre. \<not> stop_read c" and c: "stop_read c" and ls: "length ls \<le> 1"
  have "stop_ends (c # map TimerExpired ls)"
    using c ls by (cases ls; cases "tl ls") auto
  then show ?thesis
    using stop_ends_append [OF pre, of "c # map TimerExpired ls"] by simp
qed

lemma event_loop_select_failed:
  "\<not> break_flag s \<Longrightarrow> select_returns inp = select_failed errno \<Longrightarrow>
     event_loop L (inp # rest) s =
       (if during_wait inp \<noteq> [] then (perform_all (during_wait inp) s, Returned)
        else if errno = EINTR then event_loop L rest s
        else (s, Thrown (runtime_error ''select failed\<newline>'')))"
  by (simp add: Let_def)

lemma event_loop_select_returned:
  "\<not> break_flag s \<Longrightarrow> select_returns inp = select_returned ready \<Longrightarrow>
   s1 = perform_all (during_wait inp) s \<Longrightarrow>
   s2 = (if breakPipe s1 > 0 then s1\<lparr>breakPipe := breakPipe s1 - 1\<rparr> else s1) \<Longrightarrow>
     event_loop L (inp # rest) s =
       (if break_flag s2 then (s2, Returned)
        else event_loop L rest
               (execute_expired_timers L (clock inp)
                  (service_sockets L ready (recvfrom_returns inp) (socketListeners s2) s2)))"
  by (simp add: Let_def del: perform_all_break)

lemma event_loop_trace:
  "\<exists>new. calls (fst (event_loop L script s)) = calls s @ new
     \<and> handled (socketListeners s) new
     \<and> stop_ends new
     \<and> ((\<exists>c \<in> set new. stop_read c)
          \<longrightarrow> snd (event_loop L script s) = Returned \<and> break_flag (fst (event_loop L script s)))"
proof (induction script arbitrary: s)
  case Nil
  show ?case by (intro exI [of _ "[]"]) simp
next
  case (Cons inp rest)
  define s1 where "s1 = perform_all (during_wait inp) s"
  have s1: "calls s1 = calls s" "socketListeners s1 = socketListeners s"
    by (simp_all add: s1_def)
  show ?case
  proof (cases "break_flag s")
    case True
    then show ?thesis by (intro exI [of _ "[]"]) simp
  next
    case nb: False
    show ?thesis
    proof (cases "select_returns inp")
      case (select_failed errno)
      note unfold = event_loop_select_failed [OF nb select_failed, of L rest]
      show ?thesis
      proof (cases "during_wait inp = [] \<and> errno = EINTR")
        case True
        then have "event_loop L (inp # rest) s = event_loop L rest s"
          using unfold by simp
        with Cons.IH [of s] show ?thesis by simp
      next
        case False
        then have "calls (fst (event_loop L (inp # rest) s)) = calls s"
          and "socketListeners (fst (event_loop L (inp # rest) s)) = socketListeners s"
          using unfold by auto
        then show ?thesis by (intro exI [of _ "[]"]) simp
      qed
    next
      case (select_returned ready)
      define s2 where "s2 = (if breakPipe s1 > 0 then s1\<lparr>breakPipe := breakPipe s1 - 1\<rparr> else s1)"
      note unfold = event_loop_select_returned [OF nb select_returned s1_def s2_def, of L rest]
      have s2: "calls s2 = calls s" "socketListeners s2 = socketListeners s"
        using s1 by (simp_all add: s2_def)
      show ?thesis
      proof (cases "break_flag s2")
        case True
        then have "event_loop L (inp # rest) s = (s2, Returned)"
          using unfold by simp
        with s2 show ?thesis by (intro exI [of _ "[]"]) simp
      next
        case False
        define s3 where "s3 = service_sockets L ready (recvfrom_returns inp) (socketListeners s2) s2"
        define s4 where "s4 = execute_expired_timers L (clock inp) s3"
        have res: "event_loop L (inp # rest) s = event_loop L rest s4"
          using unfold False by (simp add: s3_def s4_def)
        from service_sockets_trace [of "socketListeners s2" "socketListeners s2" L ready
            "recvfrom_returns inp" s2]
        obtain ns where ns: "calls s3 = calls s2 @ ns" "handled (socketListeners s2) ns"
          "(\<forall>c \<in> set ns. \<not> stop_read c)
            \<or> (break_flag s3 \<and> (\<exists>pre c. ns = pre @ [c] \<and> (\<forall>c \<in> set pre. \<not> stop_read c) \<and> stop_read c))"
          "socketListeners s3 = socketListeners s2"
          unfolding s3_def by auto
        from execute_expired_timers_trace [of L "clock inp" s3]
        obtain ls where ls: "calls s4 = calls s3 @ map TimerExpired ls"
          "break_flag s3 \<longrightarrow> length ls \<le> 1 \<and> break_flag s4"
          "socketListeners s4 = socketListeners s3"
          unfolding s4_def by auto
        from Cons.IH [of s4]
        obtain nr where nr: "calls (fst (event_loop L rest s4)) = calls s4 @ nr"
          "handled (socketListeners s4) nr" "stop_ends nr"
          "(\<exists>c \<in> set nr. stop_read c)
             \<longrightarrow> snd (event_loop L rest s4) = Returned \<and> break_flag (fst (event_loop L rest s4))"
          by blast
        let ?new = "ns @ map TimerExpired ls @ nr"
        have regs: "socketListeners s4 = socketListeners s" "socketListeners s2 = socketListeners s"
          using ls(3) ns(4) s2(2) by simp_all
        have a: "calls (fst (event_loop L rest s4)) = calls s @ ?new"
          using nr(1) ls(1) ns(1) s2(1) by simp
        have b: "handled (socketListeners s) ?new"
          using ns(2) nr(2) regs handled_timers [of "socketListeners s" ls]
          by (auto intro!: handled_append)
        have c: "stop_ends ?new
            \<and> ((\<exists>c \<in> set ?new. stop_read c)
                 \<longrightarrow> snd (event_loop L rest s4) = Returned \<and> break_flag (fst (event_loop L rest s4)))"
        proof (rule disjE [OF ns(3)])
          assume quiet: "\<forall>c \<in> set ns. \<not> stop_read c"
          then have "\<forall>c \<in> set (ns @ map TimerExpired ls). \<not> stop_read c"
            using no_stop_timers [of ls] by auto
          from stop_ends_append [OF this, of nr] this nr(3,4) show ?thesis
            by auto
        next
          assume "break_flag s3
            \<and> (\<exists>pre c. ns = pre @ [c] \<and> (\<forall>c \<in> set pre. \<not> stop_read c) \<and> stop_read c)"
          then obtain pre c where st: "break_flag s3" "ns = pre @ [c]"
            "\<forall>c \<in> set pre. \<not> stop_read c" "stop_read c"
            by blast
          from st(1) ls(2) have l1: "length ls \<le> 1" and b4: "break_flag s4"
            by simp_all
          from b4 have fin: "event_loop L rest s4 = (s4, Returned)"
            by (rule event_loop_break)
          with nr(1) have "nr = []" by simp
          with stop_ends_last [OF st(3,4) l1] st(2) fin b4 show ?thesis by simp
        qed
        show ?thesis unfolding res using a b c by blast
      qed
    qed
  qed
qed

lemma Run_trace:
  "\<exists>new. calls (fst (Run L now script s)) = calls s @ new
     \<and> handled (socketListeners s) new
     \<and> stop_ends new
     \<and> ((\<exists>c \<in> set new. stop_read c)
          \<longrightarrow> snd (Run L now script s) = Returned \<and> break_flag (fst (Run L now script s)))"
proof -
  define s1 where "s1 = s\<lparr>break_flag := False, currentTimeMs := now,
    timerQueue := std_sort_of L (map (\<lambda>i. (now + initialDelayMs i, i)) (timerListeners s)),
    data := []\<rparr>"
  have "Run L now script s = event_loop L script s1"
    by (simp add: Run_def s1_def Let_def)
  moreover have "calls s1 = calls s" "socketListeners s1 = socketListeners s"
    by (simp_all add: s1_def)
  ultimately show ?thesis
    using event_loop_trace [of L script s1] by simp
qed

lemma event_loop_retries:
  "\<forall>inp \<in> set retries. during_wait inp = [] \<and> select_returns inp = select_failed EINTR \<Longrightarrow>
     event_loop L (retries @ rest) s = event_loop L rest s"
proof (induction retries)
  case Nil
  show ?case by simp
next
  case (Cons r retries)
  show ?case
  proof (cases "break_flag s")
    case True
    then show ?thesis by (simp add: event_loop_break)
  next
    case False
    from Cons.prems have dw: "during_wait r = []" and sel: "select_returns r = select_failed EINTR"
      by simp_all
    have "event_loop L (r # (retries @ rest)) s = event_loop L (retries @ rest) s"
      using event_loop_select_failed [OF False sel, of L "retries @ rest"] dw by simp
    moreover from Cons.prems
    have "\<forall>inp \<in> set retries. during_wait inp = [] \<and> select_returns inp = select_failed EINTR"
      by simp
    then have "event_loop L (retries @ rest) s = event_loop L rest s"
      by (rule Cons.IH)
    ultimately show ?thesis by (simp only: append_Cons)
  qed
qed

lemma execute_expired_timers_sorted:
  assumes srt: "sorts_by_expiry (std_sort_of L)" and sorted: "sorted (map fst (timerQueue s))"
  shows "sorted (map fst (timerQueue (execute_expired_timers L now s)))"
proof -
  obtain q' r s1 where run:
    "expired_timers L now (timerQueue s) (s\<lparr>currentTimeMs := now\<rparr>) = (q', r, s1)"
    by (cases "expired_timers L now (timerQueue s) (s\<lparr>currentTimeMs := now\<rparr>)") auto
  from expired_timers_sorted [OF run sorted srt] run show ?thesis
    by (simp add: execute_expired_timers_def)
qed

lemma event_loop_timerQueue_sorted:
  "sorts_by_expiry (std_sort_of L) \<Longrightarrow> sorted (map fst (timerQueue s)) \<Longrightarrow>
     sorted (map fst (timerQueue (fst (event_loop L script s))))"
proof (induction script arbitrary: s)
  case Nil
  then show ?case by simp
next
  case (Cons inp rest)
  define s1 where "s1 = perform_all (during_wait inp) s"
  show ?case
  proof (cases "break_flag s")
    case True
    with Cons.prems show ?thesis by simp
  next
    case nb: False
    show ?thesis
    proof (cases "select_returns inp")
      case (select_failed errno)
      from event_loop_select_failed [OF nb select_failed, of L rest] Cons.IH [OF Cons.prems]
        Cons.prems(2)
      show ?thesis by (auto split: if_splits)
    next
      case (select_returned ready)
      define s2 where "s2 = (if breakPipe s1 > 0 then s1\<lparr>breakPipe := breakPipe s1 - 1\<rparr> else s1)"
      define s3 where "s3 = service_sockets L ready (recvfrom_returns inp) (socketListeners s2) s2"
      define s4 where "s4 = execute_expired_timers L (clock inp) s3"
      have q2: "timerQueue s2 = timerQueue s"
        by (simp add: s2_def s1_def)
      from service_sockets_trace [of "socketListeners s2" "socketListeners s2" L ready
          "recvfrom_returns inp" s2]
      have "timerQueue s3 = timerQueue s2"
        unfolding s3_def by auto
      with q2 Cons.prems(2) have "sorted (map fst (timerQueue s3))"
        by simp
      with Cons.prems(1) have "sorted (map fst (timerQueue s4))"
        unfolding s4_def by (rule execute_expired_timers_sorted)
      with Cons.prems(1) have "sorted (map fst (timerQueue (fst (event_loop L rest s4))))"
        by (rule Cons.IH)
      with event_loop_select_returned [OF nb select_returned s1_def s2_def, of L rest]
        q2 Cons.prems(2)
      show ?thesis by (auto simp: s3_def s4_def split: if_splits)
    qed
  qed
qed

lemma Run_timerQueue_sorted:
  assumes srt: "sorts_by_expiry (std_sort_of L)"
  shows "sorted (map fst (timerQueue (fst (Run L now script s))))"
proof -
  have "sorted (map fst (std_sort_of L (map (\<lambda>i. (now + initialDelayMs i, i)) (timerListeners s))))"
    using srt by (simp add: sorts_by_expiry_def)
  then show ?thesis
    unfolding Run_def Let_def by (intro event_loop_timerQueue_sorted [OF srt]) simp
qed

subsection \<open>Timers that fire, and the timer that stops the loop\<close>

lemma fire_timers_Nil [simp]: "fire_timers L [] s = s"
  by (simp add: fire_timers_def)

lemma fire_timers_Cons [simp]:
  "fire_timers L (e # es) s = fire_timers L es (call_TimerExpired L (listener (snd e)) s)"
  by (simp add: fire_timers_def)

lemma fire_timers_calls:
  "calls (fire_timers L es s) = calls s @ map (\<lambda>e. TimerExpired (listener (snd e))) es"
  by (induction es arbitrary: s) simp_all

lemma fire_timers_break: "break_flag s \<Longrightarrow> break_flag (fire_timers L es s)"
  by (induction es arbitrary: s) (simp_all add: call_TimerExpired_break)

lemma expired_timers_stops:
  assumes "\<forall>x \<in> set pre. fst x \<le> now" and "fst e \<le> now"
    and "pre = [] \<or> \<not> break_flag (fire_timers L pre s)"
    and "break_flag (call_TimerExpired L (listener (snd e)) (fire_timers L pre s))"
  shows "expired_timers L now (pre @ e # post) s =
     (map (\<lambda>x. (fst x + periodMs (snd x), snd x)) pre @ e # post, pre \<noteq> [],
      call_TimerExpired L (listener (snd e)) (fire_timers L pre s))"
  using assms
proof (induction pre arbitrary: s)
  case Nil
  then show ?case by (simp add: Let_def)
next
  case (Cons p pre)
  define s1 where "s1 = call_TimerExpired L (listener (snd p)) s"
  from Cons.prems(3) have nb: "\<not> break_flag (fire_timers L pre s1)"
    by (simp add: s1_def)
  then have nb1: "\<not> break_flag s1"
    using fire_timers_break [of s1 L pre] by blast
  from Cons.prems(1) have due: "fst p \<le> now" "\<forall>x \<in> set pre. fst x \<le> now"
    by simp_all
  from Cons.prems(4) have stop: "break_flag (call_TimerExpired L (listener (snd e)) (fire_timers L pre s1))"
    by (simp add: s1_def)
  have "expired_timers L now (pre @ e # post) s1 =
     (map (\<lambda>x. (fst x + periodMs (snd x), snd x)) pre @ e # post, pre \<noteq> [],
      call_TimerExpired L (listener (snd e)) (fire_timers L pre s1))"
    using due(2) Cons.prems(2) nb stop by (intro Cons.IH) simp_all
  with nb1 due(1) show ?case by (simp add: s1_def Let_def)
qed

lemma execute_expired_timers_all:
  assumes srt: "sorts_by_expiry (std_sort_of L)"
    and sorted: "sorted (map fst (timerQueue s))"
    and no_stop: "\<not> break_flag (execute_expired_timers L now s)"
  shows "calls (execute_expired_timers L now s)
           = calls s @ map (\<lambda>e. TimerExpired (listener (snd e)))
                         (filter (\<lambda>e. fst e \<le> now) (timerQueue s))
    \<and> mset (timerQueue (execute_expired_timers L now s))
         = mset (map (\<lambda>e. (fst e + periodMs (snd e), snd e))
                   (filter (\<lambda>e. fst e \<le> now) (timerQueue s)))
           + mset (filter (\<lambda>e. \<not> fst e \<le> now) (timerQueue s))
    \<and> sorted (map fst (timerQueue (execute_expired_timers L now s)))"
proof -
  let ?s0 = "s\<lparr>currentTimeMs := now\<rparr>"
  let ?q = "timerQueue s"
  let ?due = "\<lambda>e. fst e \<le> now"
  obtain q' r s1 where run: "expired_timers L now ?q ?s0 = (q', r, s1)"
    by (cases "expired_timers L now ?q ?s0") auto
  have res: "execute_expired_timers L now s
      = s1\<lparr>timerQueue := (if r then std_sort_of L q' else q')\<rparr>"
    using run by (simp add: execute_expired_timers_def)
  with no_stop have "\<not> break_flag (snd (snd (expired_timers L now ?q ?s0)))"
    using run by simp
  from expired_timers_all [OF this] run
  have q': "q' = map (\<lambda>e. (fst e + periodMs (snd e), snd e)) (takeWhile ?due ?q) @ dropWhile ?due ?q"
    and c1: "calls s1 = calls s @ map (\<lambda>e. TimerExpired (listener (snd e))) (takeWhile ?due ?q)"
    by simp_all
  note ft = sorted_filter_takeWhile [OF sorted, of now]
  have a: "calls (execute_expired_timers L now s)
      = calls s @ map (\<lambda>e. TimerExpired (listener (snd e))) (filter ?due ?q)"
    using res c1 ft by simp
  have "mset (if r then std_sort_of L q' else q') = mset q'"
    using srt by (simp add: sorts_by_expiry_def)
  then have b: "mset (timerQueue (execute_expired_timers L now s))
      = mset (map (\<lambda>e. (fst e + periodMs (snd e), snd e)) (filter ?due ?q))
        + mset (filter (\<lambda>e. \<not> fst e \<le> now) ?q)"
    using res q' ft by simp
  have c: "sorted (map fst (timerQueue (execute_expired_timers L now s)))"
    using expired_timers_sorted [OF run sorted srt] res by simp
  from a b c show ?thesis by blast
qed

lemma execute_expired_timers_stops:
  assumes srt: "sorts_by_expiry (std_sort_of L)"
    and sorted: "sorted (map fst (timerQueue s))"
    and queue: "timerQueue s = pre @ e # post"
    and due: "fst e \<le> now"
    and reached: "pre = [] \<or> \<not> break_flag (fire_timers L pre (s\<lparr>currentTimeMs := now\<rparr>))"
    and stop: "break_flag (call_TimerExpired L (listener (snd e))
                 (fire_timers L pre (s\<lparr>currentTimeMs := now\<rparr>)))"
  shows "calls (execute_expired_timers L now s)
           = calls s @ map (\<lambda>x. TimerExpired (listener (snd x))) (pre @ [e])
    \<and> mset (timerQueue (execute_expired_timers L now s))
         = mset (map (\<lambda>x. (fst x + periodMs (snd x), snd x)) pre) + mset (e # post)
    \<and> sorted (map fst (timerQueue (execute_expired_timers L now s)))
    \<and> break_flag (execute_expired_timers L now s)"
proof -
  let ?s0 = "s\<lparr>currentTimeMs := now\<rparr>"
  let ?s1 = "call_TimerExpired L (listener (snd e)) (fire_timers L pre ?s0)"
  let ?q' = "map (\<lambda>x. (fst x + periodMs (snd x), snd x)) pre @ e # post"
  from sorted queue have "\<forall>x \<in> set pre. fst x \<le> fst e"
    by (auto simp: sorted_append)
  with due have pre_due: "\<forall>x \<in> set pre. fst x \<le> now"
    by auto
  have run: "expired_timers L now (timerQueue s) ?s0 = (?q', pre \<noteq> [], ?s1)"
    unfolding queue using pre_due due reached stop by (rule expired_timers_stops)
  have res: "execute_expired_timers L now s
      = ?s1\<lparr>timerQueue := (if pre \<noteq> [] then std_sort_of L ?q' else ?q')\<rparr>"
    using run by (simp add: execute_expired_timers_def)
  have a: "calls (execute_expired_timers L now s)
      = calls s @ map (\<lambda>x. TimerExpired (listener (snd x))) (pre @ [e])"
    unfolding res by (simp add: fire_timers_calls)
  have "mset (if pre \<noteq> [] then std_sort_of L ?q' else ?q') = mset ?q'"
    using srt by (simp add: sorts_by_expiry_def)
  then have b: "mset (timerQueue (execute_expired_timers L now s))
      = mset (map (\<lambda>x. (fst x + periodMs (snd x), snd x)) pre) + mset (e # post)"
    unfolding res by simp
  have c: "sorted (map fst (timerQueue (execute_expired_timers L now s)))"
    using expired_timers_sorted [OF run sorted srt] res by simp
  have d: "break_flag (execute_expired_timers L now s)"
    unfolding res using stop by simp
  from a b c d show ?thesis by blast
qed

lemma event_loop_pass:
  assumes "\<not> break_flag p" and "during_wait inp = []"
    and "select_returns inp = select_returned ready"
  shows "event_loop L (inp # rest) p =
     event_loop L rest
       (execute_expired_timers L (clock inp)
          (service_sockets L ready (recvfrom_returns inp) (socketListeners p)
             (if 0 < breakPipe p then p\<lparr>breakPipe := breakPipe p - 1\<rparr> else p)))"
proof -
  define s1 where "s1 = perform_all (during_wait inp) p"
  define s2 where "s2 = (if breakPipe s1 > 0 then s1\<lparr>breakPipe := breakPipe s1 - 1\<rparr> else s1)"
  have s1: "s1 = p" using assms(2) by (simp add: s1_def)
  then have "\<not> break_flag s2" "socketListeners s2 = socketListeners p"
    using assms(1) by (simp_all add: s2_def)
  with event_loop_select_returned [OF assms(1,3) s1_def s2_def, of L rest] s1
  show ?thesis by (simp add: s2_def)
qed

subsection \<open>The loop over an input that goes on\<close>

lemma Run_event_loop:
  "Run L now script s =
     event_loop L script
       (s\<lparr>break_flag := False, currentTimeMs := now,
          timerQueue := std_sort_of L (map (\<lambda>i. (now + initialDelayMs i, i)) (timerListeners s)),
          data := []\<rparr>)"
  by (simp add: Run_def Let_def)

lemma event_loop_Waiting:
  "snd (event_loop L xs s) = Waiting \<Longrightarrow> \<not> break_flag (fst (event_loop L xs s))"
proof (induction xs arbitrary: s)
  case Nil
  then show ?case by (simp split: if_splits)
next
  case (Cons inp rest)
  show ?case
  proof (cases "break_flag s")
    case True
    with Cons.prems show ?thesis by (simp add: event_loop_break)
  next
    case nb: False
    show ?thesis
    proof (cases "select_returns inp")
      case (select_failed errno)
      note unfold = event_loop_select_failed [OF nb select_failed, of L rest]
      from Cons.prems unfold have "event_loop L (inp # rest) s = event_loop L rest s"
        by (auto split: if_splits)
      with Cons.prems Cons.IH [of s] show ?thesis by simp
    next
      case (select_returned ready)
      define s1 where "s1 = perform_all (during_wait inp) s"
      define s2 where "s2 = (if breakPipe s1 > 0 then s1\<lparr>breakPipe := breakPipe s1 - 1\<rparr> else s1)"
      define s4 where "s4 = execute_expired_timers L (clock inp)
        (service_sockets L ready (recvfrom_returns inp) (socketListeners s2) s2)"
      note unfold = event_loop_select_returned [OF nb select_returned s1_def s2_def, of L rest]
      from Cons.prems unfold have "event_loop L (inp # rest) s = event_loop L rest s4"
        by (auto simp: s4_def split: if_splits)
      with Cons.prems Cons.IH [of s4] show ?thesis by simp
    qed
  qed
qed


lemma event_loop_append:
  "event_loop L (xs @ ys) s =
     (if snd (event_loop L xs s) = Waiting then event_loop L ys (fst (event_loop L xs s))
      else event_loop L xs s)"
proof (induction xs arbitrary: s)
  case Nil
  show ?case by (simp add: event_loop_break)
next
  case (Cons inp rest)
  show ?case
  proof (cases "break_flag s")
    case True
    then show ?thesis by (simp add: event_loop_break)
  next
    case nb: False
    show ?thesis
    proof (cases "select_returns inp")
      case (select_failed errno)
      note u1 = event_loop_select_failed [OF nb select_failed, of L rest]
      note u2 = event_loop_select_failed [OF nb select_failed, of L "rest @ ys"]
      show ?thesis
      proof (cases "during_wait inp = [] \<and> errno = EINTR")
        case True
        with u1 u2 have "event_loop L (inp # rest) s = event_loop L rest s"
          and "event_loop L (inp # rest @ ys) s = event_loop L (rest @ ys) s"
          by simp_all
        with Cons.IH [of s] show ?thesis by simp
      next
        case False
        with u1 u2 have "event_loop L (inp # rest @ ys) s = event_loop L (inp # rest) s"
          and "snd (event_loop L (inp # rest) s) \<noteq> Waiting"
          by auto
        then show ?thesis by simp
      qed
    next
      case (select_returned ready)
      define s1 where "s1 = perform_all (during_wait inp) s"
      define s2 where "s2 = (if breakPipe s1 > 0 then s1\<lparr>breakPipe := breakPipe s1 - 1\<rparr> else s1)"
      define s4 where "s4 = execute_expired_timers L (clock inp)
        (service_sockets L ready (recvfrom_returns inp) (socketListeners s2) s2)"
      note u1 = event_loop_select_returned [OF nb select_returned s1_def s2_def, of L rest]
      note u2 = event_loop_select_returned [OF nb select_returned s1_def s2_def, of L "rest @ ys"]
      show ?thesis
      proof (cases "break_flag s2")
        case True
        with u1 u2 have "event_loop L (inp # rest @ ys) s = event_loop L (inp # rest) s"
          and "snd (event_loop L (inp # rest) s) \<noteq> Waiting"
          by simp_all
        then show ?thesis by simp
      next
        case False
        with u1 u2 have "event_loop L (inp # rest) s = event_loop L rest s4"
          and "event_loop L (inp # rest @ ys) s = event_loop L (rest @ ys) s4"
          by (simp_all add: s4_def)
        with Cons.IH [of s4] show ?thesis by simp
      qed
    qed
  qed
qed

lemma Run_append:
  assumes "Run L now before s = (s1, Waiting)"
  shows "Run L now (before @ rest) s = event_loop L rest s1" and "\<not> break_flag s1"
proof -
  let ?s0 = "s\<lparr>break_flag := False, currentTimeMs := now,
    timerQueue := std_sort_of L (map (\<lambda>i. (now + initialDelayMs i, i)) (timerListeners s)),
    data := []\<rparr>"
  from assms have b: "event_loop L before ?s0 = (s1, Waiting)"
    by (simp only: Run_event_loop)
  have "Run L now (before @ rest) s = event_loop L (before @ rest) ?s0"
    by (simp only: Run_event_loop)
  also have "\<dots> = event_loop L rest s1"
    using b by (simp add: event_loop_append)
  finally show "Run L now (before @ rest) s = event_loop L rest s1" .
  from event_loop_Waiting [of L before ?s0] b show "\<not> break_flag s1"
    by simp
qed



subsection \<open>A byte in the break pipe changes nothing but the pipe\<close>

lemma perform_pipe:
  "\<exists>k'. perform r (s\<lparr>breakPipe := k\<rparr>) = (perform r s)\<lparr>breakPipe := k'\<rparr>"
proof (cases r)
  case Break_called
  then show ?thesis by (intro exI [of _ k]) (simp add: Break_def)
next
  case AsynchronousBreak_called
  then show ?thesis by (intro exI [of _ "k + 1"]) (simp add: AsynchronousBreak_def)
qed

lemma perform_all_pipe:
  "\<exists>k'. perform_all rs (s\<lparr>breakPipe := k\<rparr>) = (perform_all rs s)\<lparr>breakPipe := k'\<rparr>"
proof (induction rs arbitrary: s k)
  case Nil
  show ?case by (intro exI [of _ k]) simp
next
  case (Cons r rs)
  from perform_pipe [where r = r and s = s and k = k] obtain k1 where
    "perform r (s\<lparr>breakPipe := k\<rparr>) = (perform r s)\<lparr>breakPipe := k1\<rparr>"
    by blast
  with Cons.IH [where s = "perform r s" and k = k1] show ?case by simp
qed

lemma call_ProcessPacket_pipe:
  "\<exists>k'. call_ProcessPacket L l d n ep (s\<lparr>breakPipe := k\<rparr>)
          = (call_ProcessPacket L l d n ep s)\<lparr>breakPipe := k'\<rparr>"
proof -
  obtain w rs where h: "ProcessPacket_of L l d n ep (world s) = (w, rs)"
    by (cases "ProcessPacket_of L l d n ep (world s)")
  define t where "t = s\<lparr>calls := calls s @ [ProcessPacket l d n ep], world := w\<rparr>"
  have sw: "(s\<lparr>breakPipe := k\<rparr>)\<lparr>calls := calls s @ [ProcessPacket l d n ep], world := w\<rparr>
      = t\<lparr>breakPipe := k\<rparr>"
    by (simp add: t_def)
  have "call_ProcessPacket L l d n ep (s\<lparr>breakPipe := k\<rparr>)
      = perform_all rs ((s\<lparr>breakPipe := k\<rparr>)\<lparr>calls := calls s @ [ProcessPacket l d n ep], world := w\<rparr>)"
    using h by (simp add: call_ProcessPacket_def)
  then have l: "call_ProcessPacket L l d n ep (s\<lparr>breakPipe := k\<rparr>) = perform_all rs (t\<lparr>breakPipe := k\<rparr>)"
    by (simp only: sw)
  have r: "call_ProcessPacket L l d n ep s = perform_all rs t"
    using h by (simp add: call_ProcessPacket_def t_def)
  from perform_all_pipe [where rs = rs and s = t and k = k] show ?thesis
    by (simp only: l r)
qed

lemma call_TimerExpired_pipe:
  "\<exists>k'. call_TimerExpired L l (s\<lparr>breakPipe := k\<rparr>) = (call_TimerExpired L l s)\<lparr>breakPipe := k'\<rparr>"
proof -
  obtain w rs where h: "TimerExpired_of L l (world s) = (w, rs)"
    by (cases "TimerExpired_of L l (world s)")
  define t where "t = s\<lparr>calls := calls s @ [TimerExpired l], world := w\<rparr>"
  have sw: "(s\<lparr>breakPipe := k\<rparr>)\<lparr>calls := calls s @ [TimerExpired l], world := w\<rparr>
      = t\<lparr>breakPipe := k\<rparr>"
    by (simp add: t_def)
  have "call_TimerExpired L l (s\<lparr>breakPipe := k\<rparr>)
      = perform_all rs ((s\<lparr>breakPipe := k\<rparr>)\<lparr>calls := calls s @ [TimerExpired l], world := w\<rparr>)"
    using h by (simp add: call_TimerExpired_def)
  then have l: "call_TimerExpired L l (s\<lparr>breakPipe := k\<rparr>) = perform_all rs (t\<lparr>breakPipe := k\<rparr>)"
    by (simp only: sw)
  have r: "call_TimerExpired L l s = perform_all rs t"
    using h by (simp add: call_TimerExpired_def t_def)
  from perform_all_pipe [where rs = rs and s = t and k = k] show ?thesis
    by (simp only: l r)
qed

lemma service_sockets_pipe:
  "\<exists>k'. service_sockets L ready recv regs (s\<lparr>breakPipe := k\<rparr>)
          = (service_sockets L ready recv regs s)\<lparr>breakPipe := k'\<rparr>"
proof (induction regs arbitrary: s k)
  case Nil
  show ?case by (intro exI [of _ k]) simp
next
  case (Cons reg regs)
  obtain l socket where reg: "reg = (l, socket)" by (cases reg)
  show ?case
  proof (cases "ready socket")
    case False
    with Cons.IH [where s = s and k = k] reg show ?thesis by simp
  next
    case True
    obtain n ep buf where rf:
      "UdpSocket_ReceiveFrom (recv socket) (remoteEndpoint s) (data s) MAX_BUFFER_SIZE = (n, ep, buf)"
      by (cases "UdpSocket_ReceiveFrom (recv socket) (remoteEndpoint s) (data s) MAX_BUFFER_SIZE")
    define s1 where "s1 = s\<lparr>data := buf, remoteEndpoint := ep,
      calls := calls s @ [ReceiveFrom l socket n buf ep]\<rparr>"
    have s1k: "(s\<lparr>breakPipe := k\<rparr>)\<lparr>data := buf, remoteEndpoint := ep,
        calls := calls (s\<lparr>breakPipe := k\<rparr>) @ [ReceiveFrom l socket n buf ep]\<rparr>
      = s1\<lparr>breakPipe := k\<rparr>"
      by (simp add: s1_def)
    consider (stop) "n = 8 \<and> strcmp_is_0 buf ''__stop_''"
      | (packet) "\<not> (n = 8 \<and> strcmp_is_0 buf ''__stop_'')" "0 < n"
      | (no_data) "\<not> (n = 8 \<and> strcmp_is_0 buf ''__stop_'')" "n = 0"
      by auto
    then show ?thesis
    proof cases
      case stop
      then have "service_sockets L ready recv (reg # regs) s = s1\<lparr>break_flag := True\<rparr>"
        and "service_sockets L ready recv (reg # regs) (s\<lparr>breakPipe := k\<rparr>)
          = (s1\<lparr>breakPipe := k\<rparr>)\<lparr>break_flag := True\<rparr>"
        using True rf reg s1k by (auto simp: s1_def Let_def)
      then show ?thesis by (intro exI [of _ k]) simp
    next
      case packet
      define s2 where "s2 = call_ProcessPacket L l buf (int n) ep s1"
      from call_ProcessPacket_pipe [where L = L and l = l and d = buf and n = "int n" and ep = ep and s = s1 and k = k] obtain k2 where
        k2: "call_ProcessPacket L l buf (int n) ep (s1\<lparr>breakPipe := k\<rparr>) = s2\<lparr>breakPipe := k2\<rparr>"
        unfolding s2_def by blast
      have r1: "service_sockets L ready recv (reg # regs) s
          = (if break_flag s2 then s2 else service_sockets L ready recv regs s2)"
        using True rf reg packet by (auto simp: s1_def s2_def Let_def)
      have r2: "service_sockets L ready recv (reg # regs) (s\<lparr>breakPipe := k\<rparr>)
          = (if break_flag s2 then s2\<lparr>breakPipe := k2\<rparr>
             else service_sockets L ready recv regs (s2\<lparr>breakPipe := k2\<rparr>))"
        using True rf reg packet s1k k2 by (auto simp: Let_def)
      show ?thesis
      proof (cases "break_flag s2")
        case True
        with r1 r2 show ?thesis by (intro exI [of _ k2]) simp
      next
        case False
        with r1 r2 Cons.IH [where s = s2 and k = k2] show ?thesis by simp
      qed
    next
      case no_data
      then have r1: "service_sockets L ready recv (reg # regs) s
          = service_sockets L ready recv regs s1"
        using True rf reg by (auto simp: s1_def Let_def)
      have r2: "service_sockets L ready recv (reg # regs) (s\<lparr>breakPipe := k\<rparr>)
          = service_sockets L ready recv regs (s1\<lparr>breakPipe := k\<rparr>)"
        using True rf reg no_data s1k by (auto simp: Let_def)
      from r1 r2 Cons.IH [where s = s1 and k = k] show ?thesis by simp
    qed
  qed
qed

lemma expired_timers_pipe:
  "\<exists>k'. expired_timers L now q (s\<lparr>breakPipe := k\<rparr>)
          = (fst (expired_timers L now q s), fst (snd (expired_timers L now q s)),
             (snd (snd (expired_timers L now q s)))\<lparr>breakPipe := k'\<rparr>)"
proof (induction q arbitrary: s k)
  case Nil
  show ?case by (intro exI [of _ k]) simp
next
  case (Cons e es)
  show ?case
  proof (cases "fst e \<le> now")
    case False
    then show ?thesis by (intro exI [of _ k]) simp
  next
    case True
    define s1 where "s1 = call_TimerExpired L (listener (snd e)) s"
    from call_TimerExpired_pipe [where L = L and l = "listener (snd e)" and s = s and k = k] obtain k1 where
      k1: "call_TimerExpired L (listener (snd e)) (s\<lparr>breakPipe := k\<rparr>) = s1\<lparr>breakPipe := k1\<rparr>"
      unfolding s1_def by blast
    show ?thesis
    proof (cases "break_flag s1")
      case b: True
      with True k1 show ?thesis
        by (intro exI [of _ k1]) (simp add: s1_def Let_def)
    next
      case nb: False
      from Cons.IH [where s = s1 and k = k1] obtain k2 where
        k2: "expired_timers L now es (s1\<lparr>breakPipe := k1\<rparr>)
          = (fst (expired_timers L now es s1), fst (snd (expired_timers L now es s1)),
             (snd (snd (expired_timers L now es s1)))\<lparr>breakPipe := k2\<rparr>)"
        by blast
      have "expired_timers L now (e # es) (s\<lparr>breakPipe := k\<rparr>)
          = (case expired_timers L now es (s1\<lparr>breakPipe := k1\<rparr>) of
               (es', resort, s2) \<Rightarrow> ((fst e + periodMs (snd e), snd e) # es', True, s2))"
        using True nb k1 by (simp add: Let_def)
      moreover have "expired_timers L now (e # es) s
          = (case expired_timers L now es s1 of
               (es', resort, s2) \<Rightarrow> ((fst e + periodMs (snd e), snd e) # es', True, s2))"
        using True nb by (simp add: s1_def Let_def)
      ultimately show ?thesis
        using k2 by (intro exI [of _ k2]) (simp add: split_beta)
    qed
  qed
qed

lemma execute_expired_timers_pipe:
  "\<exists>k'. execute_expired_timers L now (s\<lparr>breakPipe := k\<rparr>)
          = (execute_expired_timers L now s)\<lparr>breakPipe := k'\<rparr>"
proof -
  have "(s\<lparr>breakPipe := k\<rparr>)\<lparr>currentTimeMs := now\<rparr> = (s\<lparr>currentTimeMs := now\<rparr>)\<lparr>breakPipe := k\<rparr>"
    by simp
  with expired_timers_pipe [where L = L and now = now and q = "timerQueue s" and s = "s\<lparr>currentTimeMs := now\<rparr>" and k = k]
  obtain k' where "expired_timers L now (timerQueue s) ((s\<lparr>breakPipe := k\<rparr>)\<lparr>currentTimeMs := now\<rparr>)
      = (fst (expired_timers L now (timerQueue s) (s\<lparr>currentTimeMs := now\<rparr>)),
         fst (snd (expired_timers L now (timerQueue s) (s\<lparr>currentTimeMs := now\<rparr>))),
         (snd (snd (expired_timers L now (timerQueue s) (s\<lparr>currentTimeMs := now\<rparr>))))\<lparr>breakPipe := k'\<rparr>)"
    by auto
  then show ?thesis
    by (intro exI [of _ k']) (simp add: execute_expired_timers_def split_beta)
qed

lemma event_loop_pipe:
  "\<exists>k'. event_loop L script (s\<lparr>breakPipe := k\<rparr>)
          = ((fst (event_loop L script s))\<lparr>breakPipe := k'\<rparr>, snd (event_loop L script s))"
proof (induction script arbitrary: s k)
  case Nil
  show ?case by (intro exI [of _ k]) simp
next
  case (Cons inp rest)
  let ?sk = "s\<lparr>breakPipe := k\<rparr>"
  show ?case
  proof (cases "break_flag s")
    case True
    then show ?thesis by (intro exI [of _ k]) simp
  next
    case nb: False
    then have nbk: "\<not> break_flag ?sk" by simp
    define s1 where "s1 = perform_all (during_wait inp) s"
    define s1k where "s1k = perform_all (during_wait inp) ?sk"
    from perform_all_pipe [where rs = "during_wait inp" and s = s and k = k] obtain k1 where
      k1: "s1k = s1\<lparr>breakPipe := k1\<rparr>"
      unfolding s1_def s1k_def by blast
    show ?thesis
    proof (cases "select_returns inp")
      case (select_failed errno)
      note u = event_loop_select_failed [OF nb select_failed, of L rest]
      note uk = event_loop_select_failed [OF nbk select_failed, of L rest]
      show ?thesis
      proof (cases "during_wait inp = []")
        case False
        with u uk k1 show ?thesis
          by (intro exI [of _ k1]) (simp add: s1_def s1k_def)
      next
        case dw: True
        show ?thesis
        proof (cases "errno = EINTR")
          case True
          with u uk dw Cons.IH [where s = s and k = k] show ?thesis by simp
        next
          case False
          with u uk dw show ?thesis by (intro exI [of _ k]) simp
        qed
      qed
    next
      case (select_returned ready)
      define s2 where "s2 = (if breakPipe s1 > 0 then s1\<lparr>breakPipe := breakPipe s1 - 1\<rparr> else s1)"
      define s2k where "s2k = (if breakPipe s1k > 0 then s1k\<lparr>breakPipe := breakPipe s1k - 1\<rparr> else s1k)"
      note u = event_loop_select_returned [OF nb select_returned s1_def s2_def, of L rest]
      note uk = event_loop_select_returned [OF nbk select_returned s1k_def s2k_def, of L rest]
      have "\<exists>m. s2k = s2\<lparr>breakPipe := m\<rparr>"
      proof (cases "breakPipe s1 > 0")
        case True
        then have "s2k = s2\<lparr>breakPipe := breakPipe s2k\<rparr>"
          by (simp add: s2_def s2k_def k1)
        then show ?thesis ..
      next
        case False
        then have "s2 = s1" by (simp add: s2_def)
        then have "s2k = s2\<lparr>breakPipe := breakPipe s2k\<rparr>"
          by (simp add: s2k_def k1)
        then show ?thesis ..
      qed
      then obtain m where m: "s2k = s2\<lparr>breakPipe := m\<rparr>" ..
      show ?thesis
      proof (cases "break_flag s2")
        case True
        with u uk m show ?thesis by (intro exI [of _ m]) simp
      next
        case False
        define s3 where "s3 = service_sockets L ready (recvfrom_returns inp) (socketListeners s2) s2"
        from service_sockets_pipe [where L = L and ready = ready and recv = "recvfrom_returns inp" and regs = "socketListeners s2" and s = s2 and k = m]
        obtain m3 where m3: "service_sockets L ready (recvfrom_returns inp) (socketListeners s2k) s2k
            = s3\<lparr>breakPipe := m3\<rparr>"
          unfolding s3_def m by auto
        define s4 where "s4 = execute_expired_timers L (clock inp) s3"
        from execute_expired_timers_pipe [where L = L and now = "clock inp" and s = s3 and k = m3]
        obtain m4 where m4: "execute_expired_timers L (clock inp) (s3\<lparr>breakPipe := m3\<rparr>)
            = s4\<lparr>breakPipe := m4\<rparr>"
          unfolding s4_def by blast
        from u False have r: "event_loop L (inp # rest) s = event_loop L rest s4"
          by (simp add: s3_def s4_def)
        from uk False m m3 m4 have rk: "event_loop L (inp # rest) ?sk
            = event_loop L rest (s4\<lparr>breakPipe := m4\<rparr>)"
          by simp
        from Cons.IH [where s = s4 and k = m4] r rk show ?thesis by simp
      qed
    qed
  qed
qed

subsection \<open>The claims about the multiplexer\<close>

text \<open>
  C1 (as amended). In the calls made during \<^verbatim>\<open>Run()\<close>, every read is made on the socket of
  a registration; every read that returns a size above zero, other than the eight-byte
  datagram \<^verbatim>\<open>"__stop_"\<close>, is followed at once by exactly one call of \<^verbatim>\<open>ProcessPacket\<close> on
  the listener registered with that socket, with the buffer, the size returned and the
  sender's address; a read that returns zero and a read of the stop datagram are followed
  by no such call; and \<^verbatim>\<open>ProcessPacket\<close> is called at no other time.
\<close>

theorem C1_one_call_per_delivered_datagram:
  "\<exists>new. calls (fst (Run L now script s)) = calls s @ new \<and> handled (socketListeners s) new"
  using Run_trace [of L now script s] by blast

theorem C1_one_call_per_delivered_datagram_witness:
  "calls (fst (Run quiet_listeners 0 [datagram_pass example_message] example_multiplexer))
     = [ReceiveFrom 7 3 16 example_message sender, ProcessPacket 7 example_message 16 sender]
   \<and> handled [(7, 3)]
        [ReceiveFrom 7 3 16 example_message sender, ProcessPacket 7 example_message 16 sender]"
proof -
  have run: "calls (fst (Run quiet_listeners 0 [datagram_pass example_message] example_multiplexer))
     = [ReceiveFrom 7 3 16 example_message sender, ProcessPacket 7 example_message 16 sender]"
    by (simp add: run_simps example_defs)
  have init: "calls example_multiplexer = []" "socketListeners example_multiplexer = [(7, 3)]"
    by (simp_all add: example_multiplexer_def)
  from C1_one_call_per_delivered_datagram [of quiet_listeners 0 "[datagram_pass example_message]" example_multiplexer]
  have "handled [(7, 3)]
        [ReceiveFrom 7 3 16 example_message sender, ProcessPacket 7 example_message 16 sender]"
    unfolding run init by simp
  with run show ?thesis by simp
qed

text \<open>
  C1 as stated fails for two datagrams a registered socket can receive: the eight bytes
  \<^verbatim>\<open>"__stop_\0"\<close>, and the empty datagram. Each is read, and \<^verbatim>\<open>Run()\<close> calls no packet
  listener for it.
\<close>

theorem C1_counterexample:
  "calls (fst (Run quiet_listeners 0 [datagram_pass stop_datagram] example_multiplexer))
     = [ReceiveFrom 7 3 8 stop_datagram sender]
   \<and> calls (fst (Run quiet_listeners 0 [datagram_pass []] example_multiplexer))
     = [ReceiveFrom 7 3 0 [] sender]"
  by (simp add: run_simps example_defs)

text \<open>
  C2 (as amended). The timers of one round of the loop, run at the clock reading \<open>now\<close> on
  a queue ordered by expiry time; \<^verbatim>\<open>std::sort\<close> is any function that orders its argument
  by expiry time and keeps its entries.

  In a round that ends with the stop flag clear, every entry whose expiry time is at most
  \<open>now\<close> fires once, in the order of the queue, and nothing else fires; the queue
  afterwards holds each fired entry with its former expiry time plus its period (not
  \<open>now\<close> plus its period) and every other entry as it was; and the queue is ordered by
  expiry time again.

  When the queue is \<open>pre\<close>, then an entry \<open>e\<close> that has expired, then \<open>post\<close>, the stop
  flag is clear after the listeners of \<open>pre\<close> have run, and it is set when the listener
  of \<open>e\<close> returns (by this listener, or before the first timer), then the entries of
  \<open>pre\<close> and \<open>e\<close> fire and no entry of \<open>post\<close> does; the entries of \<open>pre\<close> get their
  period added, \<open>e\<close> and \<open>post\<close> are kept as they were; and the round ends with the stop
  flag set.

  In \<^verbatim>\<open>Run()\<close>, a round that starts with the stop flag clear, with no call from another
  thread during the wait and a \<^verbatim>\<open>select\<close> that returns, runs these timers at that round's
  clock reading on the state that servicing the sockets leaves, on a queue that is
  ordered; and when the timers end with the stop flag set, \<^verbatim>\<open>Run()\<close> returns with the
  state they leave, whatever input follows.
\<close>

theorem C2_expired_timers_fire:
  assumes srt: "sorts_by_expiry (std_sort_of L)"
    and sorted: "sorted (map fst (timerQueue s))"
  shows "(\<not> break_flag (execute_expired_timers L now s) \<longrightarrow>
        calls (execute_expired_timers L now s)
           = calls s @ map (\<lambda>e. TimerExpired (listener (snd e)))
                         (filter (\<lambda>e. fst e \<le> now) (timerQueue s))
        \<and> mset (timerQueue (execute_expired_timers L now s))
           = mset (map (\<lambda>e. (fst e + periodMs (snd e), snd e))
                     (filter (\<lambda>e. fst e \<le> now) (timerQueue s)))
             + mset (filter (\<lambda>e. \<not> fst e \<le> now) (timerQueue s))
        \<and> sorted (map fst (timerQueue (execute_expired_timers L now s))))
    \<and> (timerQueue s = pre @ e # post \<and> fst e \<le> now
        \<and> (pre = [] \<or> \<not> break_flag (fire_timers L pre (s\<lparr>currentTimeMs := now\<rparr>)))
        \<and> break_flag (call_TimerExpired L (listener (snd e))
             (fire_timers L pre (s\<lparr>currentTimeMs := now\<rparr>))) \<longrightarrow>
        calls (execute_expired_timers L now s)
           = calls s @ map (\<lambda>x. TimerExpired (listener (snd x))) (pre @ [e])
        \<and> mset (timerQueue (execute_expired_timers L now s))
           = mset (map (\<lambda>x. (fst x + periodMs (snd x), snd x)) pre) + mset (e # post)
        \<and> sorted (map fst (timerQueue (execute_expired_timers L now s)))
        \<and> break_flag (execute_expired_timers L now s))
    \<and> (Run L start before s0 = (p, Waiting) \<and> during_wait inp = []
        \<and> select_returns inp = select_returned ready
        \<and> p1 = service_sockets L ready (recvfrom_returns inp) (socketListeners p)
                 (if 0 < breakPipe p then p\<lparr>breakPipe := breakPipe p - 1\<rparr> else p) \<longrightarrow>
        Run L start (before @ inp # rest) s0
           = event_loop L rest (execute_expired_timers L (clock inp) p1)
        \<and> sorted (map fst (timerQueue p1))
        \<and> (break_flag (execute_expired_timers L (clock inp) p1) \<longrightarrow>
             Run L start (before @ inp # rest) s0
               = (execute_expired_timers L (clock inp) p1, Returned)))"
proof -
  have a: "\<not> break_flag (execute_expired_timers L now s) \<longrightarrow>
        calls (execute_expired_timers L now s)
           = calls s @ map (\<lambda>e. TimerExpired (listener (snd e)))
                         (filter (\<lambda>e. fst e \<le> now) (timerQueue s))
        \<and> mset (timerQueue (execute_expired_timers L now s))
           = mset (map (\<lambda>e. (fst e + periodMs (snd e), snd e))
                     (filter (\<lambda>e. fst e \<le> now) (timerQueue s)))
             + mset (filter (\<lambda>e. \<not> fst e \<le> now) (timerQueue s))
        \<and> sorted (map fst (timerQueue (execute_expired_timers L now s)))"
    using execute_expired_timers_all [OF srt sorted] by blast
  have b: "timerQueue s = pre @ e # post \<and> fst e \<le> now
        \<and> (pre = [] \<or> \<not> break_flag (fire_timers L pre (s\<lparr>currentTimeMs := now\<rparr>)))
        \<and> break_flag (call_TimerExpired L (listener (snd e))
             (fire_timers L pre (s\<lparr>currentTimeMs := now\<rparr>))) \<longrightarrow>
        calls (execute_expired_timers L now s)
           = calls s @ map (\<lambda>x. TimerExpired (listener (snd x))) (pre @ [e])
        \<and> mset (timerQueue (execute_expired_timers L now s))
           = mset (map (\<lambda>x. (fst x + periodMs (snd x), snd x)) pre) + mset (e # post)
        \<and> sorted (map fst (timerQueue (execute_expired_timers L now s)))
        \<and> break_flag (execute_expired_timers L now s)"
    using execute_expired_timers_stops [OF srt sorted] by blast
  have c: "Run L start before s0 = (p, Waiting) \<and> during_wait inp = []
        \<and> select_returns inp = select_returned ready
        \<and> p1 = service_sockets L ready (recvfrom_returns inp) (socketListeners p)
                 (if 0 < breakPipe p then p\<lparr>breakPipe := breakPipe p - 1\<rparr> else p) \<longrightarrow>
        Run L start (before @ inp # rest) s0
           = event_loop L rest (execute_expired_timers L (clock inp) p1)
        \<and> sorted (map fst (timerQueue p1))
        \<and> (break_flag (execute_expired_timers L (clock inp) p1) \<longrightarrow>
             Run L start (before @ inp # rest) s0
               = (execute_expired_timers L (clock inp) p1, Returned))"
  proof (intro impI, elim conjE)
    assume before: "Run L start before s0 = (p, Waiting)" and dw: "during_wait inp = []"
      and sel: "select_returns inp = select_returned ready"
      and p1: "p1 = service_sockets L ready (recvfrom_returns inp) (socketListeners p)
                 (if 0 < breakPipe p then p\<lparr>breakPipe := breakPipe p - 1\<rparr> else p)"
    note app = Run_append [OF before]
    have run: "Run L start (before @ inp # rest) s0
        = event_loop L rest (execute_expired_timers L (clock inp) p1)"
      using app(1) [of "inp # rest"] event_loop_pass [OF app(2) dw sel, of L rest] p1 by simp
    from Run_timerQueue_sorted [OF srt, of start before s0] before
    have "sorted (map fst (timerQueue p))" by simp
    moreover have "timerQueue p1 = timerQueue p"
      using service_sockets_trace [of "socketListeners p" "socketListeners p" L ready
          "recvfrom_returns inp" "if 0 < breakPipe p then p\<lparr>breakPipe := breakPipe p - 1\<rparr> else p"]
      unfolding p1 by auto
    ultimately have q: "sorted (map fst (timerQueue p1))" by simp
    have "break_flag (execute_expired_timers L (clock inp) p1) \<longrightarrow>
        Run L start (before @ inp # rest) s0 = (execute_expired_timers L (clock inp) p1, Returned)"
      using run by (simp add: event_loop_break)
    with run q show "Run L start (before @ inp # rest) s0
           = event_loop L rest (execute_expired_timers L (clock inp) p1)
        \<and> sorted (map fst (timerQueue p1))
        \<and> (break_flag (execute_expired_timers L (clock inp) p1) \<longrightarrow>
             Run L start (before @ inp # rest) s0
               = (execute_expired_timers L (clock inp) p1, Returned))"
      by blast
  qed
  from a b c show ?thesis by blast
qed

theorem C2_expired_timers_fire_witness:
  "sorts_by_expiry (std_sort_of quiet_listeners)
   \<and> sorts_by_expiry (std_sort_of second_breaking_listeners)
   \<and> sorted (map fst (timerQueue timer_multiplexer))
   \<and> \<not> break_flag (execute_expired_timers quiet_listeners 10 timer_multiplexer)
   \<and> calls (execute_expired_timers quiet_listeners 10 timer_multiplexer)
       = [TimerExpired 1, TimerExpired 2]
   \<and> mset (timerQueue (execute_expired_timers quiet_listeners 10 timer_multiplexer))
       = {#(50, timer_1), (25, timer_2), (30, timer_3)#}
   \<and> sorted (map fst (timerQueue (execute_expired_timers quiet_listeners 10 timer_multiplexer)))
   \<and> timerQueue timer_multiplexer = [(0, timer_1)] @ (5, timer_2) # [(30, timer_3)]
   \<and> calls (execute_expired_timers second_breaking_listeners 10 timer_multiplexer)
       = [TimerExpired 1, TimerExpired 2]
   \<and> mset (timerQueue (execute_expired_timers second_breaking_listeners 10 timer_multiplexer))
       = {#(50, timer_1), (5, timer_2), (30, timer_3)#}
   \<and> break_flag (execute_expired_timers second_breaking_listeners 10 timer_multiplexer)
   \<and> snd (Run quiet_listeners 0 [] timer_multiplexer) = Waiting
   \<and> Run second_breaking_listeners 0 ([] @ timeout_pass 10 # [timeout_pass 100]) timer_multiplexer
       = Run second_breaking_listeners 0 [timeout_pass 10] timer_multiplexer
   \<and> snd (Run second_breaking_listeners 0 [timeout_pass 10] timer_multiplexer) = Returned
   \<and> calls (fst (Run second_breaking_listeners 0 [timeout_pass 10] timer_multiplexer))
       = [TimerExpired 1, TimerExpired 2]"
proof -
  have s1: "sorts_by_expiry (std_sort_of quiet_listeners)"
    and s2: "sorts_by_expiry (std_sort_of second_breaking_listeners)"
    by (simp_all add: quiet_listeners_def second_breaking_listeners_def sort_key_sorts_by_expiry)
  have h1: "sorted (map fst (timerQueue timer_multiplexer))"
    by (simp add: timer_multiplexer_def)
  have h2: "\<not> break_flag (execute_expired_timers quiet_listeners 10 timer_multiplexer)"
    by (simp add: run_simps example_defs timer_1_def timer_2_def timer_3_def)
  have q: "timerQueue timer_multiplexer = [(0, timer_1), (5, timer_2), (30, timer_3)]"
    "calls timer_multiplexer = []"
    by (simp_all add: timer_multiplexer_def)
  have p: "periodMs timer_1 = 50" "periodMs timer_2 = 20" "listener timer_1 = 1" "listener timer_2 = 2"
    by (simp_all add: timer_1_def timer_2_def)
  have a: "calls (execute_expired_timers quiet_listeners 10 timer_multiplexer)
       = [TimerExpired 1, TimerExpired 2]
   \<and> mset (timerQueue (execute_expired_timers quiet_listeners 10 timer_multiplexer))
       = {#(50, timer_1), (25, timer_2), (30, timer_3)#}
   \<and> sorted (map fst (timerQueue (execute_expired_timers quiet_listeners 10 timer_multiplexer)))"
    using C2_expired_timers_fire [OF s1 h1, where now = 10] h2
    unfolding q by (simp add: p)
  have h3: "timerQueue timer_multiplexer = [(0, timer_1)] @ (5, timer_2) # [(30, timer_3)]"
    by (simp add: timer_multiplexer_def)
  have h4: "\<not> break_flag (fire_timers second_breaking_listeners [(0, timer_1)]
      (timer_multiplexer\<lparr>currentTimeMs := 10\<rparr>))"
    by (simp add: run_simps example_defs timer_1_def)
  have h5: "break_flag (call_TimerExpired second_breaking_listeners (listener (snd (5, timer_2)))
      (fire_timers second_breaking_listeners [(0, timer_1)] (timer_multiplexer\<lparr>currentTimeMs := 10\<rparr>)))"
    by (simp add: run_simps example_defs timer_1_def timer_2_def)
  have b: "calls (execute_expired_timers second_breaking_listeners 10 timer_multiplexer)
       = [TimerExpired 1, TimerExpired 2]
   \<and> mset (timerQueue (execute_expired_timers second_breaking_listeners 10 timer_multiplexer))
       = {#(50, timer_1), (5, timer_2), (30, timer_3)#}
   \<and> break_flag (execute_expired_timers second_breaking_listeners 10 timer_multiplexer)"
    using C2_expired_timers_fire [OF s2 h1, where now = 10 and pre = "[(0, timer_1)]"
        and e = "(5, timer_2)" and post = "[(30, timer_3)]"] h3 h4 h5
    unfolding q(2) by (simp add: p)
  define p0 where "p0 = fst (Run second_breaking_listeners 0 [] timer_multiplexer)"
  define p1 where "p1 = service_sockets second_breaking_listeners (\<lambda>fd. False)
      (recvfrom_returns (timeout_pass 10)) (socketListeners p0)
      (if 0 < breakPipe p0 then p0\<lparr>breakPipe := breakPipe p0 - 1\<rparr> else p0)"
  have w: "snd (Run quiet_listeners 0 [] timer_multiplexer) = Waiting"
    by (simp add: run_simps example_defs)
  have h6: "Run second_breaking_listeners 0 [] timer_multiplexer = (p0, Waiting)"
    unfolding p0_def by (simp add: run_simps example_defs prod_eq_iff)
  have h7: "during_wait (timeout_pass 10) = []"
    "select_returns (timeout_pass 10) = select_returned (\<lambda>fd. False)"
    "clock (timeout_pass 10) = 10"
    by (simp_all add: timeout_pass_def)
  have h8: "break_flag (execute_expired_timers second_breaking_listeners (clock (timeout_pass 10)) p1)"
    by (simp add: p1_def p0_def run_simps example_defs timer_1_def timer_2_def timer_3_def)
  have "Run second_breaking_listeners 0 ([] @ timeout_pass 10 # [timeout_pass 100]) timer_multiplexer
       = (execute_expired_timers second_breaking_listeners (clock (timeout_pass 10)) p1, Returned)"
    using C2_expired_timers_fire [where L = second_breaking_listeners and s = timer_multiplexer
        and start = 0 and before = "[]" and ?s0.0 = timer_multiplexer and p = p0
        and inp = "timeout_pass 10" and ready = "\<lambda>fd. False" and ?p1.0 = p1
        and rest = "[timeout_pass 100]", OF s2 h1, THEN conjunct2, THEN conjunct2]
      h6 h7(1,2) p1_def h8
    by blast
  moreover
  have "Run second_breaking_listeners 0 ([] @ timeout_pass 10 # []) timer_multiplexer
       = (execute_expired_timers second_breaking_listeners (clock (timeout_pass 10)) p1, Returned)"
    using C2_expired_timers_fire [where L = second_breaking_listeners and s = timer_multiplexer
        and start = 0 and before = "[]" and ?s0.0 = timer_multiplexer and p = p0
        and inp = "timeout_pass 10" and ready = "\<lambda>fd. False" and ?p1.0 = p1
        and rest = "[]", OF s2 h1, THEN conjunct2, THEN conjunct2]
      h6 h7(1,2) p1_def h8
    by blast
  ultimately
  have c: "Run second_breaking_listeners 0 ([] @ timeout_pass 10 # [timeout_pass 100]) timer_multiplexer
       = Run second_breaking_listeners 0 [timeout_pass 10] timer_multiplexer"
    by simp
  have d: "snd (Run second_breaking_listeners 0 [timeout_pass 10] timer_multiplexer) = Returned
   \<and> calls (fst (Run second_breaking_listeners 0 [timeout_pass 10] timer_multiplexer))
       = [TimerExpired 1, TimerExpired 2]"
    by (simp add: run_simps example_defs timer_1_def timer_2_def timer_3_def)
  from s1 s2 h1 h2 a h3 b w c d show ?thesis by blast
qed

text \<open>
  C2 as stated fails when a timer listener calls \<^verbatim>\<open>Break()\<close>: the loop over the queue
  stops after that call. At time 10 the entries due at 0 and at 5 have both expired; the
  listener of the first calls \<^verbatim>\<open>Break()\<close>, the second never fires, and the first keeps
  its expiry time 0 instead of 0 plus its period 50.
\<close>

theorem C2_counterexample:
  "[(0, timer_1), (5, timer_2), (30, timer_3)] = timerQueue timer_multiplexer
   \<and> calls (execute_expired_timers breaking_listeners 10 timer_multiplexer) = [TimerExpired 1]
   \<and> timerQueue (execute_expired_timers breaking_listeners 10 timer_multiplexer)
       = [(0, timer_1), (5, timer_2), (30, timer_3)]"
  by (simp add: run_simps example_defs timer_1_def timer_2_def timer_3_def)

text \<open>
  C6 (as amended). A round of \<^verbatim>\<open>Run()\<close>, at whatever point of the run, in which \<^verbatim>\<open>select\<close>
  fails; the loop has reached this round with the stop flag clear, as every round it
  enters. When no other thread has set the stop flag while \<^verbatim>\<open>select\<close> was blocked, a
  failure with \<^verbatim>\<open>EINTR\<close> is skipped, \<^verbatim>\<open>Run()\<close> goes on with the next round as if this one
  had not been, and a failure with any other \<^verbatim>\<open>errno\<close> makes \<^verbatim>\<open>Run()\<close> throw
  \<^verbatim>\<open>std::runtime_error\<close> to its caller, whatever input follows. When the stop flag has been
  set while \<^verbatim>\<open>select\<close> was blocked, a failure of \<^verbatim>\<open>select\<close>, with \<^verbatim>\<open>EINTR\<close> or not, ends the
  loop and \<^verbatim>\<open>Run()\<close> returns normally. In each case no listener is called in this round
  and the state is the one the round started with, but for the flag and the pipe that the
  other threads' calls have written.
\<close>

theorem C6_select_failure:
  assumes before: "Run L now before s = (s1, Waiting)"
    and failed: "select_returns inp = select_failed errno"
  shows "Run L now (before @ inp # rest) s =
       (if during_wait inp \<noteq> [] then (perform_all (during_wait inp) s1, Returned)
        else if errno = EINTR then Run L now (before @ rest) s
        else (s1, Thrown (runtime_error ''select failed\<newline>'')))
    \<and> (break_flag (perform_all (during_wait inp) s1) \<longleftrightarrow> during_wait inp \<noteq> [])
    \<and> calls (perform_all (during_wait inp) s1) = calls s1
    \<and> world (perform_all (during_wait inp) s1) = world s1
    \<and> timerQueue (perform_all (during_wait inp) s1) = timerQueue s1
    \<and> \<not> break_flag s1
    \<and> ((\<forall>r \<in> set retries. during_wait r = [] \<and> select_returns r = select_failed EINTR) \<longrightarrow>
         Run L now (before @ retries @ rest) s = Run L now (before @ rest) s)
    \<and> (\<not> break_flag s0 \<longrightarrow>
         event_loop L (inp # rest) s0 =
           (if during_wait inp \<noteq> [] then (perform_all (during_wait inp) s0, Returned)
            else if errno = EINTR then event_loop L rest s0
            else (s0, Thrown (runtime_error ''select failed\<newline>''))))"
proof -
  note app = Run_append [OF before]
  have "Run L now (before @ inp # rest) s = event_loop L (inp # rest) s1"
    by (rule app(1))
  also have "\<dots> = (if during_wait inp \<noteq> [] then (perform_all (during_wait inp) s1, Returned)
        else if errno = EINTR then event_loop L rest s1
        else (s1, Thrown (runtime_error ''select failed\<newline>'')))"
    by (rule event_loop_select_failed [OF app(2) failed])
  also have "event_loop L rest s1 = Run L now (before @ rest) s"
    by (rule app(1) [symmetric])
  finally have run: "Run L now (before @ inp # rest) s =
       (if during_wait inp \<noteq> [] then (perform_all (during_wait inp) s1, Returned)
        else if errno = EINTR then Run L now (before @ rest) s
        else (s1, Thrown (runtime_error ''select failed\<newline>'')))" .
  have flag: "break_flag (perform_all (during_wait inp) s1) \<longleftrightarrow> during_wait inp \<noteq> []"
    using app(2) by simp
  have generic: "\<not> break_flag s0 \<longrightarrow>
         event_loop L (inp # rest) s0 =
           (if during_wait inp \<noteq> [] then (perform_all (during_wait inp) s0, Returned)
            else if errno = EINTR then event_loop L rest s0
            else (s0, Thrown (runtime_error ''select failed\<newline>'')))"
    using event_loop_select_failed [of s0 inp errno L rest] failed by blast
  have frame: "calls (perform_all (during_wait inp) s1) = calls s1"
    "world (perform_all (during_wait inp) s1) = world s1"
    "timerQueue (perform_all (during_wait inp) s1) = timerQueue s1"
    by simp_all
  have many: "(\<forall>r \<in> set retries. during_wait r = [] \<and> select_returns r = select_failed EINTR) \<longrightarrow>
         Run L now (before @ retries @ rest) s = Run L now (before @ rest) s"
  proof
    assume "\<forall>r \<in> set retries. during_wait r = [] \<and> select_returns r = select_failed EINTR"
    then have "event_loop L (retries @ rest) s1 = event_loop L rest s1"
      by (rule event_loop_retries)
    then show "Run L now (before @ retries @ rest) s = Run L now (before @ rest) s"
      by (simp only: app(1))
  qed
  from run flag frame app(2) many generic show ?thesis by blast
qed

theorem C6_select_failure_witness:
  "snd (Run quiet_listeners 0 [datagram_pass example_message] example_multiplexer) = Waiting
   \<and> select_returns (failed_pass [] 9) = select_failed 9
   \<and> select_returns (failed_pass [] EINTR) = select_failed EINTR
   \<and> select_returns (failed_pass [Break_called] EINTR) = select_failed EINTR
   \<and> snd (Run quiet_listeners 0
        ([datagram_pass example_message] @ failed_pass [] 9 # [datagram_pass example_message])
        example_multiplexer) = Thrown (runtime_error ''select failed\<newline>'')
   \<and> Run quiet_listeners 0
        ([datagram_pass example_message] @ failed_pass [] EINTR # [datagram_pass example_message])
        example_multiplexer
       = Run quiet_listeners 0 ([datagram_pass example_message] @ [datagram_pass example_message])
           example_multiplexer
   \<and> snd (Run quiet_listeners 0
        ([datagram_pass example_message] @ failed_pass [Break_called] EINTR
           # [datagram_pass example_message])
        example_multiplexer) = Returned
   \<and> Run quiet_listeners 0
        ([datagram_pass example_message] @ [failed_pass [] EINTR, failed_pass [] EINTR]
           @ [datagram_pass example_message])
        example_multiplexer
       = Run quiet_listeners 0 ([datagram_pass example_message] @ [datagram_pass example_message])
           example_multiplexer
   \<and> event_loop quiet_listeners (failed_pass [] 9 # [datagram_pass example_message])
        example_multiplexer
       = (example_multiplexer, Thrown (runtime_error ''select failed\<newline>''))"
proof -
  define s1 where "s1 = fst (Run quiet_listeners 0 [datagram_pass example_message] example_multiplexer)"
  have w: "snd (Run quiet_listeners 0 [datagram_pass example_message] example_multiplexer) = Waiting"
    by (simp add: run_simps example_defs)
  then have h1: "Run quiet_listeners 0 [datagram_pass example_message] example_multiplexer
      = (s1, Waiting)"
    unfolding s1_def by (simp add: prod_eq_iff)
  have h2: "select_returns (failed_pass [] 9) = select_failed 9"
    and h3: "select_returns (failed_pass [] EINTR) = select_failed EINTR"
    and h4: "select_returns (failed_pass [Break_called] EINTR) = select_failed EINTR"
    and d: "during_wait (failed_pass [] 9) = []" "during_wait (failed_pass [] EINTR) = []"
      "during_wait (failed_pass [Break_called] EINTR) = [Break_called]"
    and e: "9 \<noteq> EINTR"
    by (simp_all add: failed_pass_def EINTR_def)
  have a: "snd (Run quiet_listeners 0
        ([datagram_pass example_message] @ failed_pass [] 9 # [datagram_pass example_message])
        example_multiplexer) = Thrown (runtime_error ''select failed\<newline>'')"
    using C6_select_failure [OF h1 h2, where rest = "[datagram_pass example_message]"] d e by simp
  have b: "Run quiet_listeners 0
        ([datagram_pass example_message] @ failed_pass [] EINTR # [datagram_pass example_message])
        example_multiplexer
       = Run quiet_listeners 0 ([datagram_pass example_message] @ [datagram_pass example_message])
           example_multiplexer"
    using C6_select_failure [OF h1 h3, where rest = "[datagram_pass example_message]"] d by simp
  have c: "snd (Run quiet_listeners 0
        ([datagram_pass example_message] @ failed_pass [Break_called] EINTR
           # [datagram_pass example_message])
        example_multiplexer) = Returned"
    using C6_select_failure [OF h1 h4, where rest = "[datagram_pass example_message]"] d by simp
  have m: "Run quiet_listeners 0
        ([datagram_pass example_message] @ [failed_pass [] EINTR, failed_pass [] EINTR]
           @ [datagram_pass example_message])
        example_multiplexer
       = Run quiet_listeners 0 ([datagram_pass example_message] @ [datagram_pass example_message])
           example_multiplexer"
    using C6_select_failure [OF h1 h3, where rest = "[datagram_pass example_message]"
        and retries = "[failed_pass [] EINTR, failed_pass [] EINTR]"] d h3
    by simp
  have nb: "\<not> break_flag example_multiplexer"
    by (simp add: example_multiplexer_def)
  have g: "event_loop quiet_listeners (failed_pass [] 9 # [datagram_pass example_message])
        example_multiplexer
       = (example_multiplexer, Thrown (runtime_error ''select failed\<newline>''))"
    using C6_select_failure [OF h1 h2, where rest = "[datagram_pass example_message]"
        and ?s0.0 = example_multiplexer] nb d e
    by simp
  from w h2 h3 h4 a b c m g show ?thesis by blast
qed

text \<open>
  C6 as stated fails when another thread calls \<^verbatim>\<open>Break()\<close> while \<^verbatim>\<open>select\<close> is blocked: the
  source tests \<^verbatim>\<open>break_\<close> before \<^verbatim>\<open>errno\<close>. A failure with \<^verbatim>\<open>EBADF\<close> (9) then throws
  nothing, \<^verbatim>\<open>Run()\<close> returns; and after a failure with \<^verbatim>\<open>EINTR\<close> the loop does not
  continue, the datagram of the next round is never read.
\<close>

theorem C6_counterexample:
  "snd (Run quiet_listeners 0 [failed_pass [Break_called] 9] example_multiplexer) = Returned
   \<and> Run quiet_listeners 0 [failed_pass [Break_called] EINTR, datagram_pass example_message]
        example_multiplexer
       = (example_multiplexer\<lparr>break_flag := True\<rparr>, Returned)"
  by (simp add: run_simps example_defs)



text \<open>
  C8. In the calls made during \<^verbatim>\<open>Run()\<close>, a read that returns the eight bytes of the
  NUL-terminated string \<^verbatim>\<open>"__stop_"\<close> is followed by no call of a packet listener and by no
  further read: at most one timer listener is still called. When there is such a read,
  \<^verbatim>\<open>Run()\<close> has set the stop flag and has returned, whatever input was still to come and
  whoever the sender was.
\<close>

theorem C8_stop_datagram:
  "\<exists>new. calls (fst (Run L now script s)) = calls s @ new
     \<and> stop_ends new
     \<and> ((\<exists>c \<in> set new. stop_read c)
          \<longrightarrow> snd (Run L now script s) = Returned \<and> break_flag (fst (Run L now script s)))"
  using Run_trace [of L now script s] by blast

theorem C8_stop_datagram_witness:
  "stop_read (ReceiveFrom 7 3 8 stop_datagram sender)
   \<and> calls (fst (Run quiet_listeners 0 [datagram_pass stop_datagram, datagram_pass example_message]
        example_multiplexer)) = [ReceiveFrom 7 3 8 stop_datagram sender]
   \<and> snd (Run quiet_listeners 0 [datagram_pass stop_datagram, datagram_pass example_message]
        example_multiplexer) = Returned
   \<and> break_flag (fst (Run quiet_listeners 0
        [datagram_pass stop_datagram, datagram_pass example_message] example_multiplexer))"
proof -
  let ?r = "Run quiet_listeners 0 [datagram_pass stop_datagram, datagram_pass example_message]
    example_multiplexer"
  have run: "calls (fst ?r) = [ReceiveFrom 7 3 8 stop_datagram sender]"
    by (simp add: run_simps example_defs)
  have stop: "stop_read (ReceiveFrom 7 3 8 stop_datagram sender)"
    by (simp add: strcmp_is_0_def stop_datagram_def)
  have init: "calls example_multiplexer = []"
    by (simp add: example_multiplexer_def)
  from C8_stop_datagram [of quiet_listeners 0 "[datagram_pass stop_datagram, datagram_pass example_message]"
      example_multiplexer]
  have "snd ?r = Returned \<and> break_flag (fst ?r)"
    unfolding run init using stop by simp
  with run stop show ?thesis by simp
qed

text \<open>
  C10. \<^verbatim>\<open>Run()\<close> resets the stop flag on entry: a run that starts after \<^verbatim>\<open>Break()\<close> is the
  run that starts without it. A run that starts after \<^verbatim>\<open>AsynchronousBreak()\<close> differs from
  the run that starts without it only by the bytes in the break pipe: on every input it
  has the same outcome (it returns, throws or goes on waiting as the other does), makes
  the same calls and ends in the same state but for the pipe. The byte left in the pipe
  stops nothing: a first round in which \<^verbatim>\<open>select\<close> returns reads it and goes on to the
  sockets and the timers with the stop flag clear and the pipe as it was before
  \<^verbatim>\<open>AsynchronousBreak()\<close>. With no input yet, \<^verbatim>\<open>Run()\<close> is waiting in \<^verbatim>\<open>select\<close>, it has not
  returned.
\<close>

theorem C10_break_before_Run_discarded:
  "Run L now script (Break s) = Run L now script s
   \<and> Run L now script (AsynchronousBreak s) = Run L now script (s\<lparr>breakPipe := breakPipe s + 1\<rparr>)
   \<and> snd (Run L now [] (Break s)) = Waiting
   \<and> snd (Run L now [] (AsynchronousBreak s)) = Waiting
   \<and> (\<exists>k. Run L now script (AsynchronousBreak s)
          = ((fst (Run L now script s))\<lparr>breakPipe := k\<rparr>, snd (Run L now script s)))
   \<and> snd (Run L now script (AsynchronousBreak s)) = snd (Run L now script s)
   \<and> calls (fst (Run L now script (AsynchronousBreak s))) = calls (fst (Run L now script s))
   \<and> world (fst (Run L now script (AsynchronousBreak s))) = world (fst (Run L now script s))
   \<and> break_flag (fst (Run L now script (AsynchronousBreak s)))
       = break_flag (fst (Run L now script s))
   \<and> (during_wait inp = [] \<and> select_returns inp = select_returned ready \<longrightarrow>
        Run L now (inp # rest) (AsynchronousBreak s)
          = event_loop L rest
              (execute_expired_timers L (clock inp)
                 (service_sockets L ready (recvfrom_returns inp) (socketListeners s)
                    (s\<lparr>break_flag := False, currentTimeMs := now,
                       timerQueue := std_sort_of L
                         (map (\<lambda>i. (now + initialDelayMs i, i)) (timerListeners s)),
                       data := []\<rparr>))))"
proof -
  let ?q = "std_sort_of L (map (\<lambda>i. (now + initialDelayMs i, i)) (timerListeners s))"
  let ?s0 = "s\<lparr>break_flag := False, currentTimeMs := now, timerQueue := ?q, data := []\<rparr>"
  have old: "Run L now script (Break s) = Run L now script s
     \<and> Run L now script (AsynchronousBreak s) = Run L now script (s\<lparr>breakPipe := breakPipe s + 1\<rparr>)
     \<and> snd (Run L now [] (Break s)) = Waiting
     \<and> snd (Run L now [] (AsynchronousBreak s)) = Waiting"
    by (simp add: Run_def Break_def AsynchronousBreak_def Let_def)
  have "(AsynchronousBreak s)\<lparr>break_flag := False, currentTimeMs := now,
        timerQueue := std_sort_of L
          (map (\<lambda>i. (now + initialDelayMs i, i)) (timerListeners (AsynchronousBreak s))),
        data := []\<rparr>
      = ?s0\<lparr>breakPipe := breakPipe s + 1\<rparr>"
    by (simp add: AsynchronousBreak_def)
  then have start: "\<And>xs. Run L now xs (AsynchronousBreak s)
      = event_loop L xs (?s0\<lparr>breakPipe := breakPipe s + 1\<rparr>)"
    by (simp only: Run_event_loop)
  have plain: "Run L now script s = event_loop L script ?s0"
    by (rule Run_event_loop)
  from event_loop_pipe [where L = L and script = script and s = ?s0 and k = "breakPipe s + 1"]
  obtain k where k: "event_loop L script (?s0\<lparr>breakPipe := breakPipe s + 1\<rparr>)
      = ((fst (event_loop L script ?s0))\<lparr>breakPipe := k\<rparr>, snd (event_loop L script ?s0))"
    by blast
  have same: "Run L now script (AsynchronousBreak s)
      = ((fst (Run L now script s))\<lparr>breakPipe := k\<rparr>, snd (Run L now script s))"
    unfolding start plain by (rule k)
  then have ex: "\<exists>k. Run L now script (AsynchronousBreak s)
          = ((fst (Run L now script s))\<lparr>breakPipe := k\<rparr>, snd (Run L now script s))"
    by blast
  have parts: "snd (Run L now script (AsynchronousBreak s)) = snd (Run L now script s)"
    "calls (fst (Run L now script (AsynchronousBreak s))) = calls (fst (Run L now script s))"
    "world (fst (Run L now script (AsynchronousBreak s))) = world (fst (Run L now script s))"
    "break_flag (fst (Run L now script (AsynchronousBreak s)))
       = break_flag (fst (Run L now script s))"
    unfolding same by simp_all
  have first: "during_wait inp = [] \<and> select_returns inp = select_returned ready \<longrightarrow>
        Run L now (inp # rest) (AsynchronousBreak s)
          = event_loop L rest
              (execute_expired_timers L (clock inp)
                 (service_sockets L ready (recvfrom_returns inp) (socketListeners s) ?s0))"
  proof (intro impI, elim conjE)
    assume dw: "during_wait inp = []" and sel: "select_returns inp = select_returned ready"
    define p where "p = ?s0\<lparr>breakPipe := breakPipe s + 1\<rparr>"
    have nb: "\<not> break_flag p" and pipe: "0 < breakPipe p" and regs: "socketListeners p = socketListeners s"
      by (simp_all add: p_def)
    have drained: "p\<lparr>breakPipe := breakPipe p - 1\<rparr> = ?s0"
      by (simp add: p_def)
    from event_loop_pass [OF nb dw sel, of L rest] pipe
    have "event_loop L (inp # rest) p
        = event_loop L rest (execute_expired_timers L (clock inp)
            (service_sockets L ready (recvfrom_returns inp) (socketListeners p)
               (p\<lparr>breakPipe := breakPipe p - 1\<rparr>)))"
      by simp
    then show "Run L now (inp # rest) (AsynchronousBreak s)
          = event_loop L rest
              (execute_expired_timers L (clock inp)
                 (service_sockets L ready (recvfrom_returns inp) (socketListeners s) ?s0))"
      unfolding start p_def [symmetric] by (simp only: drained regs)
  qed
  from old ex parts first show ?thesis by blast
qed

theorem C10_break_before_Run_discarded_witness:
  "Run quiet_listeners 0 [datagram_pass example_message] (Break example_multiplexer)
     = (example_multiplexer\<lparr>data := example_message, remoteEndpoint := sender,
          calls := [ReceiveFrom 7 3 16 example_message sender,
                    ProcessPacket 7 example_message 16 sender]\<rparr>, Waiting)
   \<and> snd (Run quiet_listeners 0 [datagram_pass example_message]
            (AsynchronousBreak example_multiplexer)) = Waiting
   \<and> calls (fst (Run quiet_listeners 0 [datagram_pass example_message]
            (AsynchronousBreak example_multiplexer)))
       = [ReceiveFrom 7 3 16 example_message sender, ProcessPacket 7 example_message 16 sender]
   \<and> \<not> break_flag (fst (Run quiet_listeners 0 [datagram_pass example_message]
            (AsynchronousBreak example_multiplexer)))
   \<and> during_wait (datagram_pass example_message) = []
   \<and> select_returns (datagram_pass example_message) = select_returned (\<lambda>fd. fd = 3)
   \<and> Run quiet_listeners 0 [datagram_pass example_message] (AsynchronousBreak example_multiplexer)
     = (example_multiplexer\<lparr>data := example_message, remoteEndpoint := sender,
          calls := [ReceiveFrom 7 3 16 example_message sender,
                    ProcessPacket 7 example_message 16 sender]\<rparr>, Waiting)"
proof -
  have run: "Run quiet_listeners 0 [datagram_pass example_message] example_multiplexer
     = (example_multiplexer\<lparr>data := example_message, remoteEndpoint := sender,
          calls := [ReceiveFrom 7 3 16 example_message sender,
                    ProcessPacket 7 example_message 16 sender]\<rparr>, Waiting)"
    by (simp add: run_simps example_defs)
  have flag: "\<not> break_flag example_multiplexer"
    by (simp add: example_multiplexer_def)
  have inp: "during_wait (datagram_pass example_message) = []"
    "select_returns (datagram_pass example_message) = select_returned (\<lambda>fd. fd = 3)"
    by (simp_all add: datagram_pass_def)
  note inst = C10_break_before_Run_discarded [where L = quiet_listeners and now = 0
      and script = "[datagram_pass example_message]" and s = example_multiplexer
      and inp = "datagram_pass example_message" and ready = "\<lambda>fd. fd = 3" and rest = "[]"]
  from inst
  have "Run quiet_listeners 0 [datagram_pass example_message] (Break example_multiplexer)
      = Run quiet_listeners 0 [datagram_pass example_message] example_multiplexer"
    by blast
  then have a: "Run quiet_listeners 0 [datagram_pass example_message] (Break example_multiplexer)
     = (example_multiplexer\<lparr>data := example_message, remoteEndpoint := sender,
          calls := [ReceiveFrom 7 3 16 example_message sender,
                    ProcessPacket 7 example_message 16 sender]\<rparr>, Waiting)"
    by (simp only: run)
  from inst
  have e1: "snd (Run quiet_listeners 0 [datagram_pass example_message]
            (AsynchronousBreak example_multiplexer))
       = snd (Run quiet_listeners 0 [datagram_pass example_message] example_multiplexer)"
    and e2: "calls (fst (Run quiet_listeners 0 [datagram_pass example_message]
            (AsynchronousBreak example_multiplexer)))
       = calls (fst (Run quiet_listeners 0 [datagram_pass example_message] example_multiplexer))"
    and e3: "break_flag (fst (Run quiet_listeners 0 [datagram_pass example_message]
            (AsynchronousBreak example_multiplexer)))
       = break_flag (fst (Run quiet_listeners 0 [datagram_pass example_message]
            example_multiplexer))"
    by blast+
  have b: "snd (Run quiet_listeners 0 [datagram_pass example_message]
            (AsynchronousBreak example_multiplexer)) = Waiting"
    "calls (fst (Run quiet_listeners 0 [datagram_pass example_message]
            (AsynchronousBreak example_multiplexer)))
       = [ReceiveFrom 7 3 16 example_message sender, ProcessPacket 7 example_message 16 sender]"
    "\<not> break_flag (fst (Run quiet_listeners 0 [datagram_pass example_message]
            (AsynchronousBreak example_multiplexer)))"
    by (simp_all add: e1 e2 e3 run flag)
  have rhs: "event_loop quiet_listeners []
      (execute_expired_timers quiet_listeners (clock (datagram_pass example_message))
         (service_sockets quiet_listeners (\<lambda>fd. fd = 3)
            (recvfrom_returns (datagram_pass example_message)) (socketListeners example_multiplexer)
            (example_multiplexer\<lparr>break_flag := False, currentTimeMs := 0,
               timerQueue := std_sort_of quiet_listeners
                 (map (\<lambda>i. (0 + initialDelayMs i, i)) (timerListeners example_multiplexer)),
               data := []\<rparr>)))
     = (example_multiplexer\<lparr>data := example_message, remoteEndpoint := sender,
          calls := [ReceiveFrom 7 3 16 example_message sender,
                    ProcessPacket 7 example_message 16 sender]\<rparr>, Waiting)"
    by (simp add: run_simps example_defs)
  from inst inp
  have "Run quiet_listeners 0 [datagram_pass example_message] (AsynchronousBreak example_multiplexer)
     = event_loop quiet_listeners []
      (execute_expired_timers quiet_listeners (clock (datagram_pass example_message))
         (service_sockets quiet_listeners (\<lambda>fd. fd = 3)
            (recvfrom_returns (datagram_pass example_message)) (socketListeners example_multiplexer)
            (example_multiplexer\<lparr>break_flag := False, currentTimeMs := 0,
               timerQueue := std_sort_of quiet_listeners
                 (map (\<lambda>i. (0 + initialDelayMs i, i)) (timerListeners example_multiplexer)),
               data := []\<rparr>)))"
    by blast
  then have f: "Run quiet_listeners 0 [datagram_pass example_message]
        (AsynchronousBreak example_multiplexer)
     = (example_multiplexer\<lparr>data := example_message, remoteEndpoint := sender,
          calls := [ReceiveFrom 7 3 16 example_message sender,
                    ProcessPacket 7 example_message 16 sender]\<rparr>, Waiting)"
    by (simp only: rhs)
  from a b inp f show ?thesis by blast
qed

end
